theory Spec2Isabelle
  imports Complex_Main
begin

section \<open>Token-bucket rate limiter (class \<open>RateLimiter\<close>)\<close>

text \<open>
  The limiter's fields. Python floats are modelled as reals; the lock is not a field:
  the body of \<open>with self.lock\<close> is one atomic function \<open>acquire_locked\<close>.
\<close>

record RateLimiter =
  capacity :: int
  tokens :: real
  fill_rate :: real
  timestamp :: real

text \<open>\<open>__init__(per_minute)\<close>; the second argument is the reading of \<open>time.monotonic()\<close>.\<close>

definition RateLimiter_init :: "int \<Rightarrow> real \<Rightarrow> RateLimiter" where
  "RateLimiter_init per_minute now =
     (let cap = max per_minute 1 in
      \<lparr>capacity = cap, tokens = real_of_int cap,
       fill_rate = real_of_int cap / 60, timestamp = now\<rparr>)"

text \<open>
  One pass through the critical section of \<open>acquire\<close> with clock reading \<open>now\<close>:
  the flag says whether the call returned (a token was debited).
\<close>

definition acquire_locked :: "real \<Rightarrow> RateLimiter \<Rightarrow> bool \<times> RateLimiter" where
  "acquire_locked now rl =
     (let elapsed = now - timestamp rl;
          rl1 = rl\<lparr>timestamp := now\<rparr>;
          rl2 = rl1\<lparr>tokens := min (real_of_int (capacity rl1))
                                  (tokens rl1 + elapsed * fill_rate rl1)\<rparr>
      in if tokens rl2 \<ge> 1 then (True, rl2\<lparr>tokens := tokens rl2 - 1\<rparr>)
         else (False, rl2))"


text \<open>
  The loop \<open>while True\<close> of \<open>acquire\<close>. Between two passes the caller runs
  \<open>time.sleep(0.02)\<close>, which moves the clock by that amount. The result holds the
  sleeps performed, the clock at return and the limiter; \<open>None\<close> is a loop that never
  returns.
\<close>

partial_function (option) acquire ::
    "real \<Rightarrow> RateLimiter \<Rightarrow> (real list \<times> real \<times> RateLimiter) option" where
  "acquire now rl =
     (let (acquired, rl') = acquire_locked now rl in
      if acquired then Some ([], now, rl')
      else Option.bind (acquire (now + 2 / 100) rl')
             (\<lambda>(sleeps, t, rl''). Some ((2 / 100) # sleeps, t, rl'')))"


definition bucket_inv :: "RateLimiter \<Rightarrow> bool" where
  "bucket_inv rl \<longleftrightarrow>
     1 \<le> capacity rl \<and> 0 \<le> tokens rl \<and> tokens rl \<le> real_of_int (capacity rl) \<and>
     fill_rate rl = real_of_int (capacity rl) / 60"


section \<open>Remote lookup (\<open>SkuCheckerApp._fetch_order_details\<close>)\<close>

subsection \<open>Python values\<close>

text \<open>A decoded JSON document; an object is the dictionary Python builds from it.\<close>

datatype json =
    JNull
  | JBool bool
  | JInt int
  | JFloat real
  | JStr string
  | JArr "json list"
  | JObj "(string \<times> json) list"

text \<open>A Python float, as \<open>float(text)\<close> may return it.\<close>

datatype pyfloat = Finite real | PosInf | NegInf | NaN

text \<open>
  The two handlers of \<open>_fetch_order_details\<close> tell exceptions apart by class:
  \<open>requests.exceptions.RequestException\<close> and every other \<open>Exception\<close>.
\<close>

datatype exn = RequestException | OtherException

type_synonym date = "int \<times> int \<times> int"

text \<open>The dictionary \<open>base_result\<close>, which is the Result put on the result queue.\<close>

record result =
  sku :: string
  order_date_obj :: "date option"
  days_since :: "int option"
  order_ref :: json
  count :: json
  status_code :: string

text \<open>
  What the code reads of a \<open>requests.Response\<close>: \<open>status_code\<close>, \<open>reason\<close>,
  \<open>headers.get("Retry-After")\<close>, and \<open>json()\<close>, which returns the decoded body or raises.
\<close>

record response =
  resp_status_code :: int
  resp_reason :: string
  resp_retry_after :: "string option"
  resp_json :: "exn + json"

text \<open>
  Everything outside the function that one call of it consults:
  \<^item> \<open>stop_at t\<close>: \<open>stop_event.is_set()\<close> at clock \<open>t\<close>;
  \<^item> \<open>http_request k\<close>: what the \<open>k\<close>-th call of \<open>self.http.request\<close> of this lookup
    does (raise, or return a response), and \<open>request_time k\<close>: how long it takes; the
    session with its mounted retry adapter is inside that call;
  \<^item> \<open>timeout_text\<close>: the configured \<open>timeout\<close> field;
  \<^item> \<open>py_float\<close>: Python's \<open>float\<close> on a string (\<open>None\<close> is \<open>ValueError\<close>);
  \<^item> \<open>fromisoformat\<close>: \<open>datetime.fromisoformat\<close> on a string, giving the date and
    the whole days from it to the present (\<open>None\<close> when it raises);
  \<^item> \<open>py_str\<close>: how an f-string renders a value that is not a string.
\<close>

record world =
  stop_at :: "real \<Rightarrow> bool"
  http_request :: "nat \<Rightarrow> exn + response"
  request_time :: "nat \<Rightarrow> real"
  timeout_text :: string
  py_float :: "string \<Rightarrow> pyfloat option"
  fromisoformat :: "string \<Rightarrow> (date \<times> int) option"
  py_str :: "json \<Rightarrow> string"

text \<open>What a lookup does that the outside can see, with the clock at which it starts.\<close>

datatype event = Request nat real | Sleep real real

text \<open>
  The state when control leaves a block: the exception in flight if any, the dictionary
  as mutated so far, the events so far and the clock.
\<close>

record outcome =
  raised :: "exn option"
  base_result :: result
  events :: "event list"
  clock :: real

subsection \<open>Library operations the function calls\<close>

text \<open>\<open>str(n)\<close> of an integer.\<close>

fun digits :: "nat \<Rightarrow> string" where
  "digits n =
     (if n < 10 then [''0123456789'' ! n]
      else digits (n div 10) @ [''0123456789'' ! (n mod 10)])"

declare digits.simps [simp del]

definition str_int :: "int \<Rightarrow> string" where
  "str_int i = (if i < 0 then CHR ''-'' # digits (nat (- i)) else digits (nat i))"

text \<open>Truth value of a Python object in \<open>if results:\<close>.\<close>

fun truthy :: "json \<Rightarrow> bool" where
  "truthy JNull = False"
| "truthy (JBool b) = b"
| "truthy (JInt i) = (i \<noteq> 0)"
| "truthy (JFloat r) = (r \<noteq> 0)"
| "truthy (JStr s) = (s \<noteq> [])"
| "truthy (JArr xs) = (xs \<noteq> [])"
| "truthy (JObj kvs) = (kvs \<noteq> [])"

text \<open>\<open>d.get(key, default)\<close> on a dictionary.\<close>

definition dict_get :: "(string \<times> json) list \<Rightarrow> string \<Rightarrow> json \<Rightarrow> json" where
  "dict_get d k dflt = (case map_of d k of Some v \<Rightarrow> v | None \<Rightarrow> dflt)"

text \<open>
  \<open>results[0]\<close>: the first element of a list, the first character of a string;
  \<open>KeyError\<close> on a dictionary (JSON keys are strings), \<open>IndexError\<close> on an empty
  sequence, \<open>TypeError\<close> on anything else.
\<close>

fun subscript0 :: "json \<Rightarrow> exn + json" where
  "subscript0 (JArr (x # xs)) = Inr x"
| "subscript0 (JStr (c # cs)) = Inr (JStr [c])"
| "subscript0 v = Inl OtherException"

text \<open>\<open>s.replace('Z', '+00:00')\<close>.\<close>

definition replace_Z :: "string \<Rightarrow> string" where
  "replace_Z s = concat (map (\<lambda>c. if c = CHR ''Z'' then ''+00:00'' else [c]) s)"

text \<open>A value inside an f-string.\<close>

definition format_value :: "world \<Rightarrow> json \<Rightarrow> string" where
  "format_value W v = (case v of JStr s \<Rightarrow> s | _ \<Rightarrow> py_str W v)"

text \<open>
  \<open>time.sleep(x)\<close>: a negative or NaN argument raises \<open>ValueError\<close>, an infinite one
  \<open>OverflowError\<close> or \<open>ValueError\<close>; otherwise the call blocks for \<open>x\<close> seconds.
\<close>

fun time_sleep :: "pyfloat \<Rightarrow> exn + real" where
  "time_sleep (Finite x) = (if x < 0 then Inl OtherException else Inr x)"
| "time_sleep PosInf = Inl OtherException"
| "time_sleep NegInf = Inl OtherException"
| "time_sleep NaN = Inl OtherException"

subsection \<open>The function\<close>

text \<open>\<open>1.5 * (attempt + 1)\<close>.\<close>

definition linear_backoff :: "nat \<Rightarrow> real" where
  "linear_backoff attempt = (3 / 2) * (real attempt + 1)"

text \<open>
  The value of \<open>sleep_s\<close> on a 429: \<open>float(ra)\<close> when the header is there and is a
  float, the linear backoff when it is absent or \<open>float\<close> raises \<open>ValueError\<close>.
\<close>

definition sleep_s_429 :: "world \<Rightarrow> response \<Rightarrow> nat \<Rightarrow> pyfloat" where
  "sleep_s_429 W resp attempt =
     (case resp_retry_after resp of
        None \<Rightarrow> Finite (linear_backoff attempt)
      | Some ra \<Rightarrow>
          (case py_float W ra of
             Some x \<Rightarrow> x
           | None \<Rightarrow> Finite (linear_backoff attempt)))"

text \<open>
  The inner \<open>try\<close> around the date: any exception in it (a value that is not a string
  has no \<open>replace\<close>; \<open>fromisoformat\<close> rejects the text) goes to its own handler.
\<close>

definition parse_order_date :: "world \<Rightarrow> json \<Rightarrow> (date \<times> int) option" where
  "parse_order_date W order_date_raw =
     (case order_date_raw of
        JStr s \<Rightarrow> fromisoformat W (replace_Z s)
      | _ \<Rightarrow> None)"

text \<open>
  The branch \<open>resp.status_code == 200\<close>. The first component is the exception that
  leaves the branch, if any; the second is \<open>base_result\<close> at that point.
\<close>

definition on_200 :: "world \<Rightarrow> response \<Rightarrow> result \<Rightarrow> exn option \<times> result" where
  "on_200 W resp base =
     (case resp_json resp of
        Inl e \<Rightarrow> (Some e, base)
      | Inr data \<Rightarrow>
          (case data of
             JObj d \<Rightarrow>
               (let results = dict_get d ''results'' (JArr []);
                    base1 = base\<lparr>count := dict_get d ''count'' (JInt 0)\<rparr>
                in if truthy results then
                     (case subscript0 results of
                        Inl e \<Rightarrow> (Some e, base1)
                      | Inr order \<Rightarrow>
                          (case order of
                             JObj od \<Rightarrow>
                               (let base2 = base1\<lparr>order_ref :=
                                              dict_get od ''order_reference'' (JStr ''N/A'')\<rparr>;
                                    order_date_raw = dict_get od ''order_date'' (JStr '''')
                                in case parse_order_date W order_date_raw of
                                     Some (d, n) \<Rightarrow>
                                       (None, base2\<lparr>order_date_obj := Some d,
                                                     days_since := Some n\<rparr>)
                                   | None \<Rightarrow>
                                       (None, base2\<lparr>order_ref :=
                                          JStr (''Invalid Date: ''
                                                @ format_value W order_date_raw)\<rparr>))
                           | _ \<Rightarrow> (Some OtherException, base1)))
                   else (None, base1\<lparr>order_ref := JStr ''No Orders Found''\<rparr>))
           | _ \<Rightarrow> (Some OtherException, base)))"

text \<open>
  The loop \<open>for attempt in range(5)\<close>, with \<open>n\<close> iterations left and \<open>attempt\<close> the
  loop variable. A sleep that returns moves the clock by its whole argument; nothing
  is polled while it lasts.
\<close>

fun attempts :: "world \<Rightarrow> nat \<Rightarrow> nat \<Rightarrow> real \<Rightarrow> result \<Rightarrow> outcome" where
  "attempts W 0 attempt now base =
     \<lparr>raised = None, base_result = base, events = [], clock = now\<rparr>"
| "attempts W (Suc n) attempt now base =
     (if stop_at W now then
        \<lparr>raised = None, base_result = base, events = [], clock = now\<rparr>
      else
        (case http_request W attempt of
           Inl e \<Rightarrow>
             \<lparr>raised = Some e, base_result = base, events = [Request attempt now],
              clock = now + request_time W attempt\<rparr>
         | Inr resp \<Rightarrow>
             (let now1 = now + request_time W attempt;
                  base1 = base\<lparr>status_code := str_int (resp_status_code resp)\<rparr>
              in if resp_status_code resp = 429 then
                   (case time_sleep (sleep_s_429 W resp attempt) of
                      Inl e \<Rightarrow>
                        \<lparr>raised = Some e, base_result = base1,
                         events = [Request attempt now], clock = now1\<rparr>
                    | Inr s \<Rightarrow>
                        (let r = attempts W n (attempt + 1) (now1 + s) base1
                         in r\<lparr>events := Request attempt now # Sleep s now1 # events r\<rparr>))
                 else if 500 \<le> resp_status_code resp \<and> resp_status_code resp < 600 then
                   (case time_sleep (Finite (linear_backoff attempt)) of
                      Inl e \<Rightarrow>
                        \<lparr>raised = Some e, base_result = base1,
                         events = [Request attempt now], clock = now1\<rparr>
                    | Inr s \<Rightarrow>
                        (let r = attempts W n (attempt + 1) (now1 + s) base1
                         in r\<lparr>events := Request attempt now # Sleep s now1 # events r\<rparr>))
                 else if resp_status_code resp = 200 then
                   (case on_200 W resp base1 of
                      (x, base2) \<Rightarrow>
                        \<lparr>raised = x, base_result = base2,
                         events = [Request attempt now], clock = now1\<rparr>)
                 else
                   \<lparr>raised = None,
                    base_result = base1\<lparr>order_ref :=
                                    JStr (''API Error: '' @ resp_reason resp)\<rparr>,
                    events = [Request attempt now], clock = now1\<rparr>)))"

text \<open>
  The body of the outer \<open>try\<close>. Reading the form (configuration, header lines, query
  parameters) is taken to succeed; \<open>float(config.get("timeout", 10) or 10)\<close> raises
  \<open>ValueError\<close> on a field that is not a number; then the loop runs.
\<close>

definition try_body :: "world \<Rightarrow> real \<Rightarrow> result \<Rightarrow> outcome" where
  "try_body W now base =
     (if timeout_text W \<noteq> [] \<and> py_float W (timeout_text W) = None then
        \<lparr>raised = Some OtherException, base_result = base, events = [], clock = now\<rparr>
      else attempts W 5 0 now base)"

text \<open>
  The whole function: the initial dictionary, the body, the two handlers, and
  \<open>return base_result\<close>. The outcome it returns never carries an exception.
\<close>

definition fetch_order_details :: "world \<Rightarrow> real \<Rightarrow> string \<Rightarrow> outcome" where
  "fetch_order_details W now key =
     (let base = \<lparr>sku = key, order_date_obj = None, days_since = None,
                  order_ref = JStr ''N/A'', count = JInt 0, status_code = ''N/A''\<rparr>;
          r = try_body W now base
      in case raised r of
           None \<Rightarrow> r
         | Some RequestException \<Rightarrow>
             r\<lparr>raised := None,
               base_result := (base_result r)\<lparr>order_ref := JStr ''Request Exception'',
                                              status_code := ''N/A''\<rparr>\<rparr>
         | Some OtherException \<Rightarrow>
             r\<lparr>raised := None,
               base_result := (base_result r)\<lparr>order_ref := JStr ''General Exception'',
                                              status_code := ''N/A''\<rparr>\<rparr>)"





subsection \<open>Sample endpoints\<close>

definition float_table :: "string \<Rightarrow> pyfloat option" where
  "float_table = map_of [(''10'', Finite 10), (''1'', Finite 1), (''2'', Finite 2),
                         (''3'', Finite 3)]"

definition reply :: "int \<Rightarrow> string \<Rightarrow> string option \<Rightarrow> exn + json \<Rightarrow> response" where
  "reply code why ra body =
     \<lparr>resp_status_code = code, resp_reason = why, resp_retry_after = ra, resp_json = body\<rparr>"

definition no_orders_body :: json where
  "no_orders_body = JObj [(''count'', JInt 0), (''results'', JArr [])]"

definition bad_date_body :: json where
  "bad_date_body =
     JObj [(''count'', JInt 1),
           (''results'', JArr [JObj [(''order_reference'', JStr ''R1''),
                                     (''order_date'', JStr ''yesterday'')]])]"

text \<open>A world in which nobody cancels, every request takes no time, and the endpoint
  answers the \<open>k\<close>-th request of a lookup with \<open>answer k\<close>.\<close>

definition endpoint :: "(nat \<Rightarrow> exn + response) \<Rightarrow> world" where
  "endpoint answer =
     \<lparr>stop_at = (\<lambda>t. False), http_request = answer, request_time = (\<lambda>k. 0),
      timeout_text = ''10'', py_float = float_table, fromisoformat = (\<lambda>s. None),
      py_str = (\<lambda>v. ''?'')\<rparr>"

text \<open>Three times 429 without a Retry-After header, then 200.\<close>

definition busy_then_ok :: world where
  "busy_then_ok =
     endpoint (\<lambda>k. if k < 3 then Inr (reply 429 ''Too Many Requests'' None (Inl OtherException))
                    else Inr (reply 200 ''OK'' None (Inr no_orders_body)))"


text \<open>200 with a body that is not JSON, so that \<open>resp.json()\<close> raises.\<close>

definition not_json :: world where
  "not_json = endpoint (\<lambda>k. Inr (reply 200 ''OK'' None (Inl OtherException)))"

text \<open>200 with an order whose date does not parse.\<close>

definition bad_date :: world where
  "bad_date = endpoint (\<lambda>k. Inr (reply 200 ''OK'' None (Inr bad_date_body)))"


section \<open>The application object (\<open>SkuCheckerApp\<close>)\<close>

text \<open>
  A row of table \<open>sku_results\<close> (class \<open>SkuResult\<close>); the fields \<open>sku\<close> and
  \<open>days_since\<close> carry the prefix \<open>row_\<close> here, since the Result has fields of these
  names. \<open>id\<close> and \<open>processed_at\<close> are filled in by the database.
\<close>

record SkuResult =
  row_sku :: string
  last_order_date :: "date option"
  row_days_since :: "int option"
  order_reference :: json
  result_count :: json
  response_code :: string

text \<open>
  The attributes of the application that the pipeline reads and writes. A queue is the
  list of its items, oldest first, \<open>None\<close> being the sentinel; \<open>unfinished_tasks\<close> is
  the counter of the task queue that \<open>put\<close> increments and \<open>task_done\<close> decrements.
  An event is \<open>True\<close> when set, so the pause gate is open when \<open>pause_event\<close> holds.
  The database session is \<open>db_new\<close> (rows added and not yet committed) and \<open>db_rows\<close>
  (rows committed). Widgets are left out. Two counters are added for stating
  properties: \<open>commits\<close> counts the commits that succeeded, \<open>commit_calls\<close> all calls
  of \<open>db.commit\<close>.
\<close>

record SkuCheckerApp =
  task_queue :: "string option list"
  unfinished_tasks :: int
  result_queue :: "result option list"
  is_processing :: bool
  pause_event :: bool
  stop_event :: bool
  total_to_process :: int
  total_enqueued :: int
  total_processed :: int
  total_ok :: int
  total_err :: int
  pending_db_count :: int
  rate_limiter :: "RateLimiter option"
  max_workers :: int
  db_new :: "SkuResult list"
  db_rows :: "SkuResult list"
  commits :: nat
  commit_calls :: nat

definition TASK_QUEUE_MAX :: nat where "TASK_QUEUE_MAX = 5000"
definition RESULT_QUEUE_MAX :: nat where "RESULT_QUEUE_MAX = 5000"
definition DB_COMMIT_BATCH_SIZE :: int where "DB_COMMIT_BATCH_SIZE = 500"

text \<open>\<open>__init__\<close>, as far as these attributes go.\<close>

definition app_init :: SkuCheckerApp where
  "app_init =
     \<lparr>task_queue = [], unfinished_tasks = 0, result_queue = [], is_processing = False,
      pause_event = True, stop_event = False, total_to_process = 0, total_enqueued = 0,
      total_processed = 0, total_ok = 0, total_err = 0, pending_db_count = 0,
      rate_limiter = None, max_workers = 1, db_new = [], db_rows = [], commits = 0,
      commit_calls = 0\<rparr>"

text \<open>
  \<open>_start_processing\<close>, with the settings already read from the form:
  \<open>rate_limit_enabled\<close>, \<open>requests_per_minute\<close> and \<open>max_workers\<close>, and the reading of
  the monotonic clock. Starting the threads and the timer is the caller's part.
\<close>

definition start_processing ::
    "bool \<Rightarrow> int \<Rightarrow> int \<Rightarrow> real \<Rightarrow> SkuCheckerApp \<Rightarrow> SkuCheckerApp" where
  "start_processing rate_limit_enabled rpm workers now a =
     a\<lparr>is_processing := True, stop_event := False, pause_event := True,
       total_to_process := 0, total_enqueued := 0, total_processed := 0,
       total_ok := 0, total_err := 0, pending_db_count := 0,
       rate_limiter := (if rate_limit_enabled then Some (RateLimiter_init rpm now) else None),
       max_workers := max 1 workers\<rparr>"

text \<open>\<open>_pause_processing\<close>, \<open>_resume_processing\<close>.\<close>

definition pause_processing :: "SkuCheckerApp \<Rightarrow> SkuCheckerApp" where
  "pause_processing a = a\<lparr>pause_event := False\<rparr>"

definition resume_processing :: "SkuCheckerApp \<Rightarrow> SkuCheckerApp" where
  "resume_processing a = a\<lparr>pause_event := True\<rparr>"

text \<open>
  \<open>task_queue.put(item)\<close> once there is room (the caller waits while the queue is
  full), and \<open>put_nowait\<close>, which raises \<open>queue.Full\<close> instead of waiting.
\<close>

definition task_put :: "string option \<Rightarrow> SkuCheckerApp \<Rightarrow> SkuCheckerApp" where
  "task_put item a =
     a\<lparr>task_queue := task_queue a @ [item], unfinished_tasks := unfinished_tasks a + 1\<rparr>"

definition task_put_nowait :: "string option \<Rightarrow> SkuCheckerApp \<Rightarrow> SkuCheckerApp option" where
  "task_put_nowait item a =
     (if length (task_queue a) \<ge> TASK_QUEUE_MAX then None else Some (task_put item a))"

text \<open>
  \<open>_stop_processing\<close>: set the signal, then \<open>put_nowait(None)\<close> once per worker; the
  first \<open>queue.Full\<close> ends the loop (it is caught and dropped).
\<close>

fun put_sentinels_nowait :: "nat \<Rightarrow> SkuCheckerApp \<Rightarrow> SkuCheckerApp" where
  "put_sentinels_nowait 0 a = a"
| "put_sentinels_nowait (Suc n) a =
     (case task_put_nowait None a of
        None \<Rightarrow> a
      | Some a' \<Rightarrow> put_sentinels_nowait n a')"

definition stop_processing :: "SkuCheckerApp \<Rightarrow> SkuCheckerApp" where
  "stop_processing a = put_sentinels_nowait (nat (max_workers a)) (a\<lparr>stop_event := True\<rparr>)"

section \<open>Producer (\<open>SkuCheckerApp._producer_from_csv\<close>)\<close>

text \<open>
  A CSV row as read with \<open>usecols=['sku', 'stock_qty']\<close>: either cell may be missing.
  Reading the next chunk returns its rows or raises.
\<close>

type_synonym csv_row = "string option \<times> int option"

datatype chunk_read = Rows "csv_row list" | ReadError

text \<open>
  \<open>chunk[chunk['stock_qty'].fillna(0) == 0]['sku'].dropna().astype(str)\<close>: the keys of
  the rows whose quantity is zero or missing, without the rows that have no key.
\<close>

definition zero_stock :: "csv_row list \<Rightarrow> string list" where
  "zero_stock rows =
     map (\<lambda>r. the (fst r))
       (filter (\<lambda>r. fst r \<noteq> None)
          (filter (\<lambda>r. (case snd r of None \<Rightarrow> 0 | Some q \<Rightarrow> q) = 0) rows))"

text \<open>
  The producer's own variables: the set \<open>seen\<close>, and the number of times it has looked
  at the cancellation signal. \<open>stop_seen k\<close> is what the \<open>k\<close>-th look returns (the
  signal is set by another thread).
\<close>

record producer =
  seen :: "string set"
  looks :: nat
  app :: SkuCheckerApp

text \<open>The loop \<open>for sku in zero\<close>.\<close>

fun enqueue_keys :: "(nat \<Rightarrow> bool) \<Rightarrow> string list \<Rightarrow> producer \<Rightarrow> producer" where
  "enqueue_keys stop_seen [] p = p"
| "enqueue_keys stop_seen (k # ks) p =
     (if stop_seen (looks p) then p\<lparr>looks := looks p + 1\<rparr>
      else
        (let p1 = p\<lparr>looks := looks p + 1\<rparr>
         in if k \<notin> seen p1 then
              enqueue_keys stop_seen ks
                (p1\<lparr>seen := insert k (seen p1),
                    app := (task_put (Some k) (app p1))
                             \<lparr>total_enqueued := total_enqueued (app p1) + 1\<rparr>\<rparr>)
            else enqueue_keys stop_seen ks p1))"

text \<open>The loop \<open>for chunk in pd.read_csv(...)\<close> inside the \<open>try\<close>.\<close>

fun read_chunks :: "(nat \<Rightarrow> bool) \<Rightarrow> chunk_read list \<Rightarrow> producer \<Rightarrow> producer" where
  "read_chunks stop_seen [] p = p"
| "read_chunks stop_seen (ReadError # cs) p = p"
| "read_chunks stop_seen (Rows rows # cs) p =
     (if stop_seen (looks p) then p\<lparr>looks := looks p + 1\<rparr>
      else read_chunks stop_seen cs
             (enqueue_keys stop_seen (zero_stock rows) (p\<lparr>looks := looks p + 1\<rparr>)))"

text \<open>The loop \<open>for _ in range(self.max_workers): self.task_queue.put(None)\<close>.\<close>

fun put_sentinels :: "nat \<Rightarrow> SkuCheckerApp \<Rightarrow> SkuCheckerApp" where
  "put_sentinels 0 a = a"
| "put_sentinels (Suc n) a = put_sentinels n (task_put None a)"

definition producer_from_csv ::
    "(nat \<Rightarrow> bool) \<Rightarrow> chunk_read list \<Rightarrow> SkuCheckerApp \<Rightarrow> SkuCheckerApp" where
  "producer_from_csv stop_seen source a =
     (let p = read_chunks stop_seen source \<lparr>seen = {}, looks = 0, app = a\<rparr>;
          a1 = put_sentinels (nat (max_workers (app p))) (app p)
      in a1\<lparr>total_to_process := total_enqueued a1\<rparr>)"

text \<open>The keys of a source that survive the filter, in source order.\<close>

fun surviving_keys :: "chunk_read list \<Rightarrow> string list" where
  "surviving_keys [] = []"
| "surviving_keys (ReadError # cs) = surviving_keys cs"
| "surviving_keys (Rows rows # cs) = zero_stock rows @ surviving_keys cs"

text \<open>The claim's words: each distinct key once, in order of first occurrence.\<close>

definition first_occurrences :: "'a list \<Rightarrow> 'a list" where
  "first_occurrences ks = rev (remdups (rev ks))"

section \<open>Aggregator (\<open>SkuCheckerApp._check_queue\<close>, \<open>_finalize_processing\<close>)\<close>

text \<open>
  \<open>db.commit()\<close> inside \<open>try\<close>/\<open>except\<close>: \<open>commit_ok k\<close> says whether the \<open>k\<close>-th call
  succeeds. A commit stores the added rows; a failed one is followed by
  \<open>db.rollback()\<close>, which drops them. The flag returned is the success.
\<close>

definition db_commit :: "(nat \<Rightarrow> bool) \<Rightarrow> SkuCheckerApp \<Rightarrow> bool \<times> SkuCheckerApp" where
  "db_commit commit_ok a =
     (if commit_ok (commit_calls a) then
        (True, a\<lparr>db_rows := db_rows a @ db_new a, db_new := [], commits := commits a + 1,
                 commit_calls := commit_calls a + 1\<rparr>)
      else (False, a\<lparr>db_new := [], commit_calls := commit_calls a + 1\<rparr>))"

text \<open>The body of the drain loop for an item that is not \<open>None\<close>.\<close>

definition drain_item :: "(nat \<Rightarrow> bool) \<Rightarrow> result \<Rightarrow> SkuCheckerApp \<Rightarrow> SkuCheckerApp" where
  "drain_item commit_ok item a =
     (let db_result = \<lparr>row_sku = sku item, last_order_date = order_date_obj item,
                       row_days_since = days_since item, order_reference = order_ref item,
                       result_count = count item, response_code = status_code item\<rparr>;
          a1 = a\<lparr>db_new := db_new a @ [db_result],
                 pending_db_count := pending_db_count a + 1,
                 total_processed := total_processed a + 1\<rparr>;
          a2 = (if status_code item = ''200'' then a1\<lparr>total_ok := total_ok a1 + 1\<rparr>
                else a1\<lparr>total_err := total_err a1 + 1\<rparr>)
      in if pending_db_count a2 \<ge> DB_COMMIT_BATCH_SIZE then
           (case db_commit commit_ok a2 of
              (True, a3) \<Rightarrow> a3\<lparr>pending_db_count := 0\<rparr>
            | (False, a3) \<Rightarrow> a3)
         else a2)"

text \<open>
  The loop \<open>while drained < 200 and not self.result_queue.empty()\<close>, on the queue's
  items; it returns the items left and the application. A \<open>None\<close> item is skipped
  without counting.
\<close>

fun drain_loop ::
    "(nat \<Rightarrow> bool) \<Rightarrow> nat \<Rightarrow> result option list \<Rightarrow> SkuCheckerApp
       \<Rightarrow> result option list \<times> SkuCheckerApp" where
  "drain_loop commit_ok drained [] a = ([], a)"
| "drain_loop commit_ok drained (item # q) a =
     (if drained < 200 then
        (case item of
           None \<Rightarrow> drain_loop commit_ok drained q a
         | Some it \<Rightarrow> drain_loop commit_ok (drained + 1) q (drain_item commit_ok it a))
      else (item # q, a))"

text \<open>\<open>_finalize_processing\<close>.\<close>

definition finalize_processing :: "(nat \<Rightarrow> bool) \<Rightarrow> SkuCheckerApp \<Rightarrow> SkuCheckerApp" where
  "finalize_processing commit_ok a =
     (let a1 = (if pending_db_count a \<noteq> 0 then
                  (case db_commit commit_ok a of
                     (True, a') \<Rightarrow> a'\<lparr>pending_db_count := 0\<rparr>
                   | (False, a') \<Rightarrow> a')
                else a)
      in a1\<lparr>is_processing := False\<rparr>)"

text \<open>
  One run of the timer callback \<open>_check_queue\<close>. When \<open>is_processing\<close> holds after the
  drain, the callback schedules itself again (the flag returned) and then tests for the
  end of the run; otherwise it returns.
\<close>

definition check_queue :: "(nat \<Rightarrow> bool) \<Rightarrow> SkuCheckerApp \<Rightarrow> bool \<times> SkuCheckerApp" where
  "check_queue commit_ok a =
     (let (q, a1) = drain_loop commit_ok 0 (result_queue a) a;
          a2 = a1\<lparr>result_queue := q\<rparr>
      in if is_processing a2 then
           (True,
            if total_processed a2 \<ge> total_to_process a2 \<and> total_to_process a2 > 0
               \<and> unfinished_tasks a2 = 0 \<and> result_queue a2 = []
            then finalize_processing commit_ok a2
            else a2)
         else (False, a2))"

text \<open>
  The timer, armed by \<open>_start_processing\<close>: Results arrive on the queue in batches
  between runs of the callback, which runs as long as it schedules itself.
\<close>

fun pump :: "(nat \<Rightarrow> bool) \<Rightarrow> result option list list \<Rightarrow> SkuCheckerApp \<Rightarrow> SkuCheckerApp" where
  "pump commit_ok [] a = a"
| "pump commit_ok (arrived # later) a =
     (case check_queue commit_ok (a\<lparr>result_queue := result_queue a @ arrived\<rparr>) of
        (True, a') \<Rightarrow> pump commit_ok later a'
      | (False, a') \<Rightarrow> a')"

text \<open>
  What the producer's loops maintain while nobody cancels, \<open>done\<close> being the keys
  looked at so far and \<open>a0\<close> the application before the producer started.
\<close>

definition producer_inv :: "SkuCheckerApp \<Rightarrow> string list \<Rightarrow> producer \<Rightarrow> bool" where
  "producer_inv a0 done p \<longleftrightarrow>
     seen p = set done \<and>
     app p = a0\<lparr>task_queue := task_queue a0 @ map Some (first_occurrences done),
                  unfinished_tasks := unfinished_tasks a0
                                       + int (length (first_occurrences done)),
                  total_enqueued := total_enqueued a0
                                     + int (length (first_occurrences done))\<rparr>"

text \<open>A source of one chunk with the keys A, B, A, C, B among rows that the filter drops.\<close>

definition sample_source :: "chunk_read list" where
  "sample_source =
     [Rows [(Some ''A'', Some 0), (Some ''B'', None), (Some ''X'', Some 7), (Some ''A'', Some 0),
            (None, Some 0), (Some ''C'', Some 0), (Some ''B'', Some 0)]]"

text \<open>A source in which no row has zero stock.\<close>

definition stocked_source :: "chunk_read list" where
  "stocked_source = [Rows [(Some ''A'', Some 5)]]"

section \<open>Worker (\<open>SkuCheckerApp._worker_consume\<close>)\<close>

text \<open>
  Where a worker thread stands in its loop: before the test of \<open>while\<close>, before
  \<open>task_queue.get()\<close>, before \<open>task_done()\<close> for a sentinel, before
  \<open>pause_event.wait()\<close>, before \<open>rate_limiter.acquire()\<close>, before
  \<open>_fetch_order_details(sku)\<close>, before \<open>result_queue.put(res)\<close>, before the
  \<open>task_done()\<close> that ends an iteration; after the loop; or dead, an exception having
  left the loop.
\<close>

datatype pc =
    AtWhile
  | AtGet
  | AtSentinelDone
  | AtPause string
  | AtAcquire string
  | AtFetch string
  | AtPut result
  | AtTaskDone
  | Exited
  | Crashed

text \<open>
  A worker: its place, and two counters added for stating properties, the Tasks it has
  taken off the task queue and the Results it has put on the result queue.
\<close>

record worker =
  place :: pc
  dequeued :: nat
  pushed :: nat

text \<open>
  What a worker's steps take from outside: the world of the \<open>k\<close>-th lookup of the run,
  and the monotonic clock at which the \<open>k\<close>-th timed operation (an \<open>acquire\<close> or a
  lookup) starts.
\<close>

record surroundings =
  lookup_world :: "nat \<Rightarrow> world"
  started_at :: "nat \<Rightarrow> real"

text \<open>
  The whole system: the application, its worker threads, and the number of timed
  operations started so far.
\<close>

record system =
  the_app :: SkuCheckerApp
  workers :: "worker list"
  timed_ops :: nat

text \<open>Whether a worker holds a Task: it has taken one and not yet put its Result.\<close>

fun holding :: "pc \<Rightarrow> bool" where
  "holding (AtPause k) = True"
| "holding (AtAcquire k) = True"
| "holding (AtFetch k) = True"
| "holding (AtPut r) = True"
| "holding p = False"

text \<open>Whether a worker has taken an item for which its \<open>task_done()\<close> is still to come.\<close>

fun owes_done :: "pc \<Rightarrow> bool" where
  "owes_done AtSentinelDone = True"
| "owes_done AtTaskDone = True"
| "owes_done p = holding p"

text \<open>
  \<open>task_queue.task_done()\<close>: raises \<open>ValueError\<close> when called more often than items
  were put.
\<close>

definition task_done :: "SkuCheckerApp \<Rightarrow> SkuCheckerApp option" where
  "task_done a =
     (if unfinished_tasks a \<le> 0 then None
      else Some (a\<lparr>unfinished_tasks := unfinished_tasks a - 1\<rparr>))"

text \<open>
  One step of a worker. \<open>None\<close>: the worker cannot move now (it waits on an empty task
  queue, on the closed pause gate, on a full result queue, in an \<open>acquire\<close> that never
  returns, or its thread has ended). The third component is the number of timed
  operations it started.
\<close>

fun worker_step ::
    "surroundings \<Rightarrow> nat \<Rightarrow> SkuCheckerApp \<Rightarrow> worker \<Rightarrow> (SkuCheckerApp \<times> worker \<times> nat) option" where
  "worker_step E n a w =
     (case place w of
        AtWhile \<Rightarrow>
          (if stop_event a then Some (a, w\<lparr>place := Exited\<rparr>, 0)
           else Some (a, w\<lparr>place := AtGet\<rparr>, 0))
      | AtGet \<Rightarrow>
          (case task_queue a of
             [] \<Rightarrow> None
           | item # q \<Rightarrow>
               (case item of
                  None \<Rightarrow> Some (a\<lparr>task_queue := q\<rparr>, w\<lparr>place := AtSentinelDone\<rparr>, 0)
                | Some k \<Rightarrow>
                    Some (a\<lparr>task_queue := q\<rparr>,
                          w\<lparr>place := AtPause k, dequeued := dequeued w + 1\<rparr>, 0)))
      | AtSentinelDone \<Rightarrow>
          (case task_done a of
             None \<Rightarrow> Some (a, w\<lparr>place := Crashed\<rparr>, 0)
           | Some a' \<Rightarrow> Some (a', w\<lparr>place := Exited\<rparr>, 0))
      | AtPause k \<Rightarrow>
          (if pause_event a then Some (a, w\<lparr>place := AtAcquire k\<rparr>, 0) else None)
      | AtAcquire k \<Rightarrow>
          (case rate_limiter a of
             None \<Rightarrow> Some (a, w\<lparr>place := AtFetch k\<rparr>, 0)
           | Some rl \<Rightarrow>
               (case acquire (started_at E n) rl of
                  None \<Rightarrow> None
                | Some (sleeps, t, rl') \<Rightarrow>
                    Some (a\<lparr>rate_limiter := Some rl'\<rparr>, w\<lparr>place := AtFetch k\<rparr>, 1)))
      | AtFetch k \<Rightarrow>
          (let res = base_result (fetch_order_details (lookup_world E n) (started_at E n) k)
           in Some (a, w\<lparr>place := AtPut res\<rparr>, 1))
      | AtPut res \<Rightarrow>
          (if length (result_queue a) \<ge> RESULT_QUEUE_MAX then None
           else Some (a\<lparr>result_queue := result_queue a @ [Some res]\<rparr>,
                      w\<lparr>place := AtTaskDone, pushed := pushed w + 1\<rparr>, 0))
      | AtTaskDone \<Rightarrow>
          (case task_done a of
             None \<Rightarrow> Some (a, w\<lparr>place := Crashed\<rparr>, 0)
           | Some a' \<Rightarrow> Some (a', w\<lparr>place := AtWhile\<rparr>, 0))
      | Exited \<Rightarrow> None
      | Crashed \<Rightarrow> None)"

text \<open>
  What can happen next in the system: worker \<open>i\<close> moves; the producer puts an item
  on the task queue (when there is room); the user pauses, resumes or stops; the
  aggregator takes an item off the result queue.
\<close>

datatype action =
    Work nat
  | Put "string option"
  | Pause
  | Resume
  | Stop
  | Take

fun system_step :: "surroundings \<Rightarrow> action \<Rightarrow> system \<Rightarrow> system" where
  "system_step E (Work i) s =
     (if i < length (workers s) then
        (case worker_step E (timed_ops s) (the_app s) (workers s ! i) of
           None \<Rightarrow> s
         | Some (a', w', k) \<Rightarrow>
             s\<lparr>the_app := a', workers := (workers s)[i := w'],
               timed_ops := timed_ops s + k\<rparr>)
      else s)"
| "system_step E (Put item) s =
     (if length (task_queue (the_app s)) \<ge> TASK_QUEUE_MAX then s
      else s\<lparr>the_app := task_put item (the_app s)\<rparr>)"
| "system_step E Pause s = s\<lparr>the_app := pause_processing (the_app s)\<rparr>"
| "system_step E Resume s = s\<lparr>the_app := resume_processing (the_app s)\<rparr>"
| "system_step E Stop s = s\<lparr>the_app := stop_processing (the_app s)\<rparr>"
| "system_step E Take s =
     s\<lparr>the_app := (the_app s)\<lparr>result_queue := tl (result_queue (the_app s))\<rparr>\<rparr>"

fun run :: "surroundings \<Rightarrow> action list \<Rightarrow> system \<Rightarrow> system" where
  "run E [] s = s"
| "run E (x # xs) s = run E xs (system_step E x s)"

text \<open>
  The system when \<open>_start_processing\<close> has started \<open>n\<close> worker threads on an
  application whose task queue is empty and balanced.
\<close>

definition fresh_worker :: worker where
  "fresh_worker = \<lparr>place = AtWhile, dequeued = 0, pushed = 0\<rparr>"

definition started_system :: "SkuCheckerApp \<Rightarrow> nat \<Rightarrow> system" where
  "started_system a n = \<lparr>the_app = a, workers = replicate n fresh_worker, timed_ops = 0\<rparr>"

text \<open>
  The balance of the task queue's counter: every item on the queue, and every item
  taken whose \<open>task_done()\<close> is still to come, is counted once.
\<close>

definition owing :: "worker list \<Rightarrow> nat" where
  "owing ws = length (filter (\<lambda>w. owes_done (place w)) ws)"

definition balanced :: "system \<Rightarrow> bool" where
  "balanced s \<longleftrightarrow>
     unfinished_tasks (the_app s)
       = int (length (task_queue (the_app s))) + int (owing (workers s))"

text \<open>What holds of every worker at any time: it is alive, and its Results match its Tasks.\<close>

definition one_result_per_task :: "worker \<Rightarrow> bool" where
  "one_result_per_task w \<longleftrightarrow>
     place w \<noteq> Crashed \<and> dequeued w = pushed w + (if holding (place w) then 1 else 0)"

text \<open>Up to \<open>n\<close> steps of one worker alone, stopping where it cannot move.\<close>

fun worker_steps ::
    "surroundings \<Rightarrow> nat \<Rightarrow> nat \<Rightarrow> SkuCheckerApp \<Rightarrow> worker \<Rightarrow> (SkuCheckerApp \<times> worker \<times> nat) option" where
  "worker_steps E 0 ops a w = Some (a, w, ops)"
| "worker_steps E (Suc n) ops a w =
     (case worker_step E ops a w of
        None \<Rightarrow> None
      | Some (a', w', k) \<Rightarrow> worker_steps E n (ops + k) a' w')"

text \<open>
  Whether a worker can still reach \<open>task_queue.get()\<close> without passing the pause gate:
  not when it waits at the gate with a Task, and not when its loop has ended.
\<close>

fun may_take :: "pc \<Rightarrow> bool" where
  "may_take (AtPause k) = False"
| "may_take AtSentinelDone = False"
| "may_take Exited = False"
| "may_take Crashed = False"
| "may_take p = True"

definition takes_bound :: "worker \<Rightarrow> nat" where
  "takes_bound w = dequeued w + (if may_take (place w) then 1 else 0)"

text \<open>How a worker may have changed while the pause gate stayed closed.\<close>

definition held_back :: "worker \<Rightarrow> worker \<Rightarrow> bool" where
  "held_back w w' \<longleftrightarrow>
     takes_bound w' \<le> takes_bound w \<and> (\<forall>k. place w = AtPause k \<longrightarrow> w' = w)"

text \<open>Surroundings in which every lookup meets the endpoint \<open>not_json\<close> at clock 0.\<close>

definition quiet :: surroundings where
  "quiet = \<lparr>lookup_world = (\<lambda>k. not_json), started_at = (\<lambda>k. 0)\<rparr>"

section \<open>Rate limiter: lemmas\<close>


lemma bucket_inv_locked:
  assumes "bucket_inv rl" and "timestamp rl \<le> now"
  shows "bucket_inv (snd (acquire_locked now rl))"
    and "timestamp (snd (acquire_locked now rl)) = now"
proof -
  have e: "0 \<le> (now - timestamp rl) * fill_rate rl"
    using assms by (simp add: bucket_inv_def)
  show "bucket_inv (snd (acquire_locked now rl))"
    using assms(1) e by (auto simp: bucket_inv_def acquire_locked_def Let_def min_def)
  show "timestamp (snd (acquire_locked now rl)) = now"
    by (simp add: acquire_locked_def Let_def)
qed



lemma acquire_returns_aux:
  "0 < fill_rate rl \<Longrightarrow> 1 \<le> capacity rl \<Longrightarrow>
   1 - (tokens rl + (now - timestamp rl) * fill_rate rl) \<le> real n * ((2 / 100) * fill_rate rl) \<Longrightarrow>
   \<exists>r. acquire now rl = Some r"
proof (induction n arbitrary: now rl)
  case 0
  then have "1 \<le> tokens rl + (now - timestamp rl) * fill_rate rl" by simp
  with 0 show ?case
    by (subst acquire.simps) (simp add: acquire_locked_def Let_def min_def)
next
  case (Suc n)
  let ?r = "min (real_of_int (capacity rl)) (tokens rl + (now - timestamp rl) * fill_rate rl)"
  show ?case
  proof (cases "1 \<le> ?r")
    case True
    then show ?thesis
      by (subst acquire.simps) (simp add: acquire_locked_def Let_def)
  next
    case False
    let ?rl' = "rl\<lparr>timestamp := now, tokens := ?r\<rparr>"
    have lk: "acquire_locked now rl = (False, ?rl')"
      using False by (simp add: acquire_locked_def Let_def)
    have r: "?r = tokens rl + (now - timestamp rl) * fill_rate rl"
      using False Suc.prems(2) by (simp add: min_def split: if_splits)
    have "1 - (tokens ?rl' + ((now + 2 / 100) - timestamp ?rl') * fill_rate ?rl')
          \<le> real n * ((2 / 100) * fill_rate ?rl')"
      using Suc.prems(3) r by (simp add: algebra_simps)
    from Suc.IH [of ?rl' "now + 2 / 100", OF _ _ this] Suc.prems(1,2)
    obtain r' where "acquire (now + 2 / 100) ?rl' = Some r'" by auto
    then show ?thesis
      by (subst acquire.simps) (auto simp: lk split: prod.splits)
  qed
qed

lemma acquire_returns:
  assumes "0 < fill_rate rl" and "1 \<le> capacity rl"
  shows "\<exists>r. acquire now rl = Some r"
proof -
  let ?d = "1 - (tokens rl + (now - timestamp rl) * fill_rate rl)"
  have pos: "0 < (2 / 100) * fill_rate rl" using assms(1) by simp
  obtain n where "?d / ((2 / 100) * fill_rate rl) \<le> real n"
    using real_arch_simple by blast
  then have "?d \<le> real n * ((2 / 100) * fill_rate rl)"
    using pos by (simp add: pos_divide_le_eq)
  from acquire_returns_aux [OF assms this] show ?thesis .
qed







lemma acquire_inv:
  assumes "acquire now rl = Some y"
  shows "bucket_inv rl \<and> timestamp rl \<le> now \<longrightarrow> bucket_inv (snd (snd y))"
proof (rule acquire.raw_induct [where P = "\<lambda>now rl y. bucket_inv rl \<and> timestamp rl \<le> now \<longrightarrow> bucket_inv (snd (snd y))", OF _ assms])
  fix acq :: "real \<Rightarrow> RateLimiter \<Rightarrow> (real list \<times> real \<times> RateLimiter) option"
    and now rl y
  assume IH: "\<And>t r z. acq t r = Some z \<Longrightarrow> bucket_inv r \<and> timestamp r \<le> t \<longrightarrow> bucket_inv (snd (snd z))"
    and eq: "(let (acquired, rl') = acquire_locked now rl in
      if acquired then Some ([], now, rl')
      else Option.bind (acq (now + 2 / 100) rl')
             (\<lambda>(sleeps, t, rl''). Some ((2 / 100) # sleeps, t, rl''))) = Some y"
  show "bucket_inv rl \<and> timestamp rl \<le> now \<longrightarrow> bucket_inv (snd (snd y))"
  proof
    assume a: "bucket_inv rl \<and> timestamp rl \<le> now"
    then have i: "bucket_inv (snd (acquire_locked now rl))"
      and t: "timestamp (snd (acquire_locked now rl)) = now"
      using bucket_inv_locked by blast+
    show "bucket_inv (snd (snd y))"
    proof (cases "fst (acquire_locked now rl)")
      case True
      with eq i show ?thesis by (auto simp: Let_def split: prod.splits)
    next
      case False
      with eq obtain z where z: "acq (now + 2 / 100) (snd (acquire_locked now rl)) = Some z"
        and y: "snd (snd y) = snd (snd z)"
        by (auto simp: Let_def split: prod.splits Option.bind_splits)
      from IH [OF z] i t y show ?thesis by simp
    qed
  qed
qed

section \<open>Rate limiter: the claims\<close>






section \<open>Remote lookup: lemmas\<close>

lemma str_int_200: "str_int 200 = ''200''"
  by (simp add: str_int_def digits.simps)

lemma str_int_429: "str_int 429 = ''429''"
  by (simp add: str_int_def digits.simps)


lemma on_200_sku: "sku (snd (on_200 W resp b)) = sku b"
  by (simp add: on_200_def Let_def split: sum.splits json.splits option.splits prod.splits)


lemma on_200_raise_indep: "fst (on_200 W resp b) = fst (on_200 W resp b')"
  by (simp add: on_200_def Let_def split: sum.splits json.splits option.splits prod.splits)

lemma attempts_sku: "sku (base_result (attempts W n a now b)) = sku b"
proof (induction n arbitrary: a now b)
  case 0
  show ?case by simp
next
  case (Suc n)
  show ?case
    by (simp add: Let_def Suc.IH on_200_sku case_prod_beta split: sum.split)
qed

lemma five: "(5::nat) = Suc (Suc (Suc (Suc (Suc 0))))" by simp

lemmas fetch_eval = fetch_order_details_def try_body_def endpoint_def reply_def
      float_table_def Let_def five sleep_s_429_def linear_backoff_def on_200_def no_orders_body_def dict_get_def
   str_int_200 str_int_429

lemma busy_then_ok_run: "fetch_order_details busy_then_ok 0 ''A'' = 
  \<lparr>raised = None, base_result = \<lparr>sku = ''A'', order_date_obj = None, days_since = None,
                  order_ref = JStr ''No Orders Found'', count = JInt 0, status_code = ''200''\<rparr>,
   events = [Request 0 0, Sleep (3/2) 0, Request 1 (3/2), Sleep 3 (3/2), Request 2 (9/2), Sleep (9/2) (9/2), Request 3 9], clock = 9\<rparr>"
  by (simp add: fetch_eval busy_then_ok_def)



lemma bad_date_run: "fetch_order_details bad_date 0 ''A'' =  \<lparr>raised = None, base_result = \<lparr>sku = ''A'', order_date_obj = None, days_since = None,
                  order_ref = JStr ''Invalid Date: yesterday'', count = JInt 1, status_code = ''200''\<rparr>,
   events = [Request 0 0], clock = 0\<rparr>"
  by (simp add: fetch_eval bad_date_def bad_date_body_def parse_order_date_def format_value_def)

lemma not_json_run: "fetch_order_details not_json 0 ''A'' = \<lparr>raised = None, base_result = \<lparr>sku = ''A'', order_date_obj = None, days_since = None,
                  order_ref = JStr ''General Exception'', count = JInt 0, status_code = ''N/A''\<rparr>,
   events = [Request 0 0], clock = 0\<rparr>"
  by (simp add: fetch_eval not_json_def)






lemma fetch_raised: "raised (fetch_order_details W now key) = None"
  by (simp add: fetch_order_details_def Let_def split: option.split exn.split)


lemma fetch_sku: "sku (base_result (fetch_order_details W now key)) = key"
  by (simp add: fetch_order_details_def try_body_def Let_def attempts_sku
      split: option.split exn.split)

lemma try_body_ok:
  "timeout_text W = [] \<or> py_float W (timeout_text W) \<noteq> None \<Longrightarrow>
   try_body W now b = attempts W (Suc (Suc (Suc (Suc (Suc 0))))) 0 now b"
  by (auto simp: try_body_def five)


lemma attempts_200:
  assumes "\<not> stop_at W now" and "http_request W a = Inr resp"
    and "resp_status_code resp = 200"
  shows "attempts W (Suc n) a now b =
     \<lparr>raised = fst (on_200 W resp (b\<lparr>status_code := ''200''\<rparr>)),
      base_result = snd (on_200 W resp (b\<lparr>status_code := ''200''\<rparr>)),
      events = [Request a now], clock = now + request_time W a\<rparr>"
  using assms by (simp add: Let_def str_int_200 case_prod_beta)

section \<open>Remote lookup: the claims\<close>




text \<open>
  Claim C7, as the code has it. Let the first request of a lookup return status 200.
  If \<open>resp.json()\<close> raises, the Result is the one of the exception handlers: status
  code "N/A" (the received 200 is overwritten), order reference "Request Exception" or
  "General Exception", no date, no days, count 0. If the body decodes to an
  object whose first result is an object with a date that does not parse, the Result
  keeps status code "200", has no date and no days, and its order reference is
  "Invalid Date: " followed by the raw date.
\<close>

theorem parse_failure_results:
  assumes "timeout_text W = [] \<or> py_float W (timeout_text W) \<noteq> None"
    and "\<not> stop_at W now" and "http_request W 0 = Inr resp" and "resp_status_code resp = 200"
  shows "(\<forall>e. resp_json resp = Inl e \<longrightarrow>
            base_result (fetch_order_details W now key) =
              \<lparr>sku = key, order_date_obj = None, days_since = None,
               order_ref = JStr (case e of RequestException \<Rightarrow> ''Request Exception''
                                 | OtherException \<Rightarrow> ''General Exception''),
               count = JInt 0, status_code = ''N/A''\<rparr>) \<and>
         (\<forall>d od rest. resp_json resp = Inr (JObj d) \<and>
              dict_get d ''results'' (JArr []) = JArr (JObj od # rest) \<and>
              parse_order_date W (dict_get od ''order_date'' (JStr '''')) = None \<longrightarrow>
            base_result (fetch_order_details W now key) =
              \<lparr>sku = key, order_date_obj = None, days_since = None,
               order_ref = JStr (''Invalid Date: ''
                                 @ format_value W (dict_get od ''order_date'' (JStr ''''))),
               count = dict_get d ''count'' (JInt 0), status_code = ''200''\<rparr>)"
proof -
  let ?b = "\<lparr>sku = key, order_date_obj = None, days_since = None,
                  order_ref = JStr ''N/A'', count = JInt 0, status_code = ''N/A''\<rparr>"
  have tb: "try_body W now ?b =
     \<lparr>raised = fst (on_200 W resp (?b\<lparr>status_code := ''200''\<rparr>)),
      base_result = snd (on_200 W resp (?b\<lparr>status_code := ''200''\<rparr>)),
      events = [Request 0 now], clock = now + request_time W 0\<rparr>"
    using attempts_200 [OF assms(2,3,4)] by (simp add: try_body_ok [OF assms(1)])
  have a: "\<forall>e. resp_json resp = Inl e \<longrightarrow>
            base_result (fetch_order_details W now key) =
              \<lparr>sku = key, order_date_obj = None, days_since = None,
               order_ref = JStr (case e of RequestException \<Rightarrow> ''Request Exception''
                                 | OtherException \<Rightarrow> ''General Exception''),
               count = JInt 0, status_code = ''N/A''\<rparr>"
    by (simp add: fetch_order_details_def Let_def tb on_200_def split: exn.split)
  have b: "\<forall>d od rest. resp_json resp = Inr (JObj d) \<and>
              dict_get d ''results'' (JArr []) = JArr (JObj od # rest) \<and>
              parse_order_date W (dict_get od ''order_date'' (JStr '''')) = None \<longrightarrow>
            base_result (fetch_order_details W now key) =
              \<lparr>sku = key, order_date_obj = None, days_since = None,
               order_ref = JStr (''Invalid Date: ''
                                 @ format_value W (dict_get od ''order_date'' (JStr ''''))),
               count = dict_get d ''count'' (JInt 0), status_code = ''200''\<rparr>"
    by (simp add: fetch_order_details_def Let_def tb on_200_def)
  from a b show ?thesis by blast
qed

text \<open>The theorem of C7 at the endpoints \<open>not_json\<close> and \<open>bad_date\<close>.\<close>

theorem parse_failure_results_witness:
  "http_request not_json 0 = Inr (reply 200 ''OK'' None (Inl OtherException)) \<and>
   base_result (fetch_order_details not_json 0 ''A'') =
     \<lparr>sku = ''A'', order_date_obj = None, days_since = None,
      order_ref = JStr ''General Exception'', count = JInt 0, status_code = ''N/A''\<rparr> \<and>
   http_request bad_date 0 = Inr (reply 200 ''OK'' None (Inr bad_date_body)) \<and>
   base_result (fetch_order_details bad_date 0 ''A'') =
     \<lparr>sku = ''A'', order_date_obj = None, days_since = None,
      order_ref = JStr ''Invalid Date: yesterday'', count = JInt 1, status_code = ''200''\<rparr>"
proof -
  let ?r1 = "reply 200 ''OK'' None (Inl OtherException)"
  let ?r2 = "reply 200 ''OK'' None (Inr bad_date_body)"
  have n: "timeout_text not_json = [] \<or> py_float not_json (timeout_text not_json) \<noteq> None"
      "\<not> stop_at not_json 0" "http_request not_json 0 = Inr ?r1" "resp_status_code ?r1 = 200"
      "resp_json ?r1 = Inl OtherException"
    by (simp_all add: not_json_def endpoint_def float_table_def reply_def)
  let ?od = "[(''order_reference'', JStr ''R1''), (''order_date'', JStr ''yesterday'')]"
  let ?d = "[(''count'', JInt 1), (''results'', JArr [JObj ?od])]"
  have b: "timeout_text bad_date = [] \<or> py_float bad_date (timeout_text bad_date) \<noteq> None"
      "\<not> stop_at bad_date 0" "http_request bad_date 0 = Inr ?r2" "resp_status_code ?r2 = 200"
      "resp_json ?r2 = Inr (JObj ?d) \<and>
       dict_get ?d ''results'' (JArr []) = JArr (JObj ?od # []) \<and>
       parse_order_date bad_date (dict_get ?od ''order_date'' (JStr '''')) = None"
    by (simp_all add: bad_date_def endpoint_def float_table_def reply_def bad_date_body_def
        dict_get_def parse_order_date_def)
  from parse_failure_results [OF n(1,2,3,4), of "''A''"] n(5)
  have 1: "base_result (fetch_order_details not_json 0 ''A'') =
     \<lparr>sku = ''A'', order_date_obj = None, days_since = None,
      order_ref = JStr ''General Exception'', count = JInt 0, status_code = ''N/A''\<rparr>"
    by simp
  from parse_failure_results [OF b(1,2,3,4), of "''A''"] b(5)
  have "base_result (fetch_order_details bad_date 0 ''A'') =
     \<lparr>sku = ''A'', order_date_obj = None, days_since = None,
      order_ref = JStr (''Invalid Date: ''
                        @ format_value bad_date (dict_get ?od ''order_date'' (JStr ''''))),
      count = dict_get ?d ''count'' (JInt 0), status_code = ''200''\<rparr>"
    by blast
  then have 2: "base_result (fetch_order_details bad_date 0 ''A'') =
     \<lparr>sku = ''A'', order_date_obj = None, days_since = None,
      order_ref = JStr ''Invalid Date: yesterday'', count = JInt 1, status_code = ''200''\<rparr>"
    by (simp add: dict_get_def format_value_def)
  from n(3) 1 b(3) 2 show ?thesis by blast
qed

text \<open>
  Claim C7 as stated fails at the endpoint \<open>not_json\<close> (status 200, body not JSON):
  the Result does not hold the received status code but "N/A", and it is classified
  as a general exception.
\<close>

theorem unparsable_payload_counterexample:
  "http_request not_json 0 = Inr (reply 200 ''OK'' None (Inl OtherException)) \<and>
   status_code (base_result (fetch_order_details not_json 0 ''A'')) = ''N/A'' \<and>
   order_ref (base_result (fetch_order_details not_json 0 ''A'')) = JStr ''General Exception''"
  by (simp add: not_json_run) (simp add: not_json_def endpoint_def)




section \<open>Producer: lemmas\<close>

lemma first_occurrences_snoc:
  "first_occurrences (ks @ [k]) =
     (if k \<in> set ks then first_occurrences ks else first_occurrences ks @ [k])"
  by (simp add: first_occurrences_def)

lemma first_occurrences_Nil: "first_occurrences [] = []"
  by (simp add: first_occurrences_def)

lemma remdups_snoc: "remdups (xs @ [k]) = filter (\<lambda>x. x \<noteq> k) (remdups xs) @ [k]"
  by (induction xs) auto

lemma first_occurrences_Cons:
  "first_occurrences (k # ks) = k # filter (\<lambda>x. x \<noteq> k) (first_occurrences ks)"
  by (simp add: first_occurrences_def remdups_snoc rev_filter)

lemma first_occurrences_distinct: "distinct (first_occurrences ks)"
  by (simp add: first_occurrences_def)

lemma first_occurrences_set: "set (first_occurrences ks) = set ks"
  by (simp add: first_occurrences_def)

lemma first_occurrences_length: "length (first_occurrences ks) = card (set ks)"
  using distinct_card [OF first_occurrences_distinct, of ks]
  by (simp add: first_occurrences_set)

lemma enqueue_keys_inv:
  assumes "\<forall>n. \<not> stop_seen n"
  shows "producer_inv a0 done p \<Longrightarrow>
         producer_inv a0 (done @ ks) ((enqueue_keys stop_seen ks p)\<lparr>looks := l\<rparr>)"
proof (induction ks arbitrary: p "done")
  case Nil
  then show ?case by (simp add: producer_inv_def)
next
  case (Cons k ks)
  let ?p1 = "p\<lparr>looks := looks p + 1\<rparr>"
  have ns: "\<not> stop_seen (looks p)" using assms by blast
  show ?case
  proof (cases "k \<in> seen p")
    case True
    have "producer_inv a0 (done @ [k]) ?p1"
      using Cons.prems True by (auto simp: producer_inv_def first_occurrences_snoc)
    from Cons.IH [OF this] True ns show ?thesis by (simp add: Let_def)
  next
    case False
    let ?p2 = "?p1\<lparr>seen := insert k (seen ?p1),
                    app := (task_put (Some k) (app ?p1))
                             \<lparr>total_enqueued := total_enqueued (app ?p1) + 1\<rparr>\<rparr>"
    have "producer_inv a0 (done @ [k]) ?p2"
      using Cons.prems False
      by (simp add: producer_inv_def first_occurrences_snoc task_put_def)
    from Cons.IH [OF this] False ns show ?thesis by (simp add: Let_def)
  qed
qed

lemma read_chunks_inv:
  assumes "\<forall>n. \<not> stop_seen n"
  shows "ReadError \<notin> set source \<Longrightarrow> producer_inv a0 done p \<Longrightarrow>
         producer_inv a0 (done @ surviving_keys source)
           ((read_chunks stop_seen source p)\<lparr>looks := l\<rparr>)"
proof (induction source arbitrary: p "done")
  case Nil
  then show ?case by (simp add: producer_inv_def)
next
  case (Cons c cs)
  then obtain rows where c: "c = Rows rows" by (cases c) auto
  let ?p1 = "enqueue_keys stop_seen (zero_stock rows) (p\<lparr>looks := looks p + 1\<rparr>)"
  have "producer_inv a0 done (p\<lparr>looks := looks p + 1\<rparr>)"
    using Cons.prems(2) by (simp add: producer_inv_def)
  from enqueue_keys_inv [OF assms this, of "zero_stock rows" "looks ?p1"]
  have inv1: "producer_inv a0 (done @ zero_stock rows) ?p1" by simp
  have ns: "\<not> stop_seen (looks p)" using assms by blast
  from Cons.IH [OF _ inv1] Cons.prems(1) c ns show ?case by simp
qed

lemma put_sentinels_queue:
  "put_sentinels n a =
     a\<lparr>task_queue := task_queue a @ replicate n None,
       unfinished_tasks := unfinished_tasks a + int n\<rparr>"
  by (induction n arbitrary: a) (simp_all add: task_put_def replicate_append_same)

section \<open>Producer: the claim\<close>

text \<open>
  Claim C3. When nobody cancels and the source reads without error, the producer puts on
  the task queue exactly one Task per distinct surviving key, in order of first occurrence
  in the source, followed by one sentinel per worker, and counts one enqueued Task per
  distinct key. Order of first occurrence is \<open>first_occurrences\<close>: its result has no
  duplicates, holds the same keys, and starts with the first key, followed by the first
  occurrences among the rest without that key.
\<close>

theorem producer_dedupes_in_first_occurrence_order:
  assumes "\<forall>n. \<not> stop_seen n" and "ReadError \<notin> set source"
  shows "task_queue (producer_from_csv stop_seen source a) =
           task_queue a @ map Some (first_occurrences (surviving_keys source))
             @ replicate (nat (max_workers a)) None \<and>
         total_enqueued (producer_from_csv stop_seen source a) =
           total_enqueued a + int (card (set (surviving_keys source))) \<and>
         distinct (first_occurrences (surviving_keys source)) \<and>
         set (first_occurrences (surviving_keys source)) = set (surviving_keys source) \<and>
         (\<forall>k ks. first_occurrences (k # ks)
                   = k # filter (\<lambda>x. x \<noteq> k) (first_occurrences ks)) \<and>
         first_occurrences ([] :: string list) = []"
proof -
  let ?start = "\<lparr>seen = {}, looks = 0, app = a\<rparr>"
  let ?p = "read_chunks stop_seen source ?start"
  let ?fo = "first_occurrences (surviving_keys source)"
  have "producer_inv a [] ?start"
    by (simp add: producer_inv_def first_occurrences_Nil)
  from read_chunks_inv [OF assms(1) assms(2) this, of "looks ?p"]
  have "producer_inv a (surviving_keys source) ?p" by simp
  then have ap: "app ?p = a\<lparr>task_queue := task_queue a @ map Some ?fo,
                  unfinished_tasks := unfinished_tasks a + int (length ?fo),
                  total_enqueued := total_enqueued a + int (length ?fo)\<rparr>"
    by (simp add: producer_inv_def)
  have q: "task_queue (producer_from_csv stop_seen source a) =
           task_queue a @ map Some ?fo @ replicate (nat (max_workers a)) None"
    by (simp add: producer_from_csv_def Let_def put_sentinels_queue ap)
  have e: "total_enqueued (producer_from_csv stop_seen source a) =
           total_enqueued a + int (card (set (surviving_keys source)))"
    by (simp add: producer_from_csv_def Let_def put_sentinels_queue ap
        first_occurrences_length)
  from q e first_occurrences_distinct [of "surviving_keys source"]
    first_occurrences_set [of "surviving_keys source"]
    first_occurrences_Cons first_occurrences_Nil
  show ?thesis by blast
qed

text \<open>
  The theorem of C3 at a source whose surviving keys are A, B, A, C, B, with two workers:
  the Tasks are A, B, C.
\<close>

theorem producer_dedupes_in_first_occurrence_order_witness:
  "surviving_keys sample_source = [''A'', ''B'', ''A'', ''C'', ''B''] \<and>
   task_queue (producer_from_csv (\<lambda>n. False) sample_source
                 (start_processing False 150 2 0 app_init))
     = [Some ''A'', Some ''B'', Some ''C'', None, None] \<and>
   total_enqueued (producer_from_csv (\<lambda>n. False) sample_source
                     (start_processing False 150 2 0 app_init)) = 3"
proof -
  let ?a = "start_processing False 150 2 0 app_init"
  have s: "surviving_keys sample_source = [''A'', ''B'', ''A'', ''C'', ''B'']"
    by (simp add: sample_source_def zero_stock_def)
  have h: "\<forall>n. \<not> (\<lambda>n. False) n" "ReadError \<notin> set sample_source"
    by (simp_all add: sample_source_def)
  have a: "task_queue ?a = []" "max_workers ?a = 2" "total_enqueued ?a = 0"
    by (simp_all add: start_processing_def app_init_def)
  have f: "first_occurrences [''A'', ''B'', ''A'', ''C'', ''B''] = [''A'', ''B'', ''C'']"
    by (simp add: first_occurrences_def)
  have c: "card (set [''A'', ''B'', ''A'', ''C'', ''B'']) = 3"
    using first_occurrences_length [of "[''A'', ''B'', ''A'', ''C'', ''B'']"] f by simp
  have r: "replicate (nat 2) (None :: string option) = [None, None]"
    by (simp add: numeral_2_eq_2)
  note t = producer_dedupes_in_first_occurrence_order [OF h, of ?a]
  from t have "task_queue (producer_from_csv (\<lambda>n. False) sample_source ?a)
          = task_queue ?a @ map Some (first_occurrences (surviving_keys sample_source))
             @ replicate (nat (max_workers ?a)) None" by blast
  then have 1: "task_queue (producer_from_csv (\<lambda>n. False) sample_source ?a)
          = [Some ''A'', Some ''B'', Some ''C'', None, None]"
    unfolding s a f r by simp
  from t have "total_enqueued (producer_from_csv (\<lambda>n. False) sample_source ?a)
          = total_enqueued ?a + int (card (set (surviving_keys sample_source)))" by blast
  then have 2: "total_enqueued (producer_from_csv (\<lambda>n. False) sample_source ?a) = 3"
    unfolding s a c by simp
  from s 1 2 show ?thesis by blast
qed

section \<open>Worker and system: lemmas\<close>

lemma owing_Cons:
  "owing (w # ws) = (if owes_done (place w) then Suc (owing ws) else owing ws)"
  by (simp add: owing_def)

lemma owing_update:
  "i < length ws \<Longrightarrow>
   int (owing (ws[i := w'])) =
     int (owing ws) - (if owes_done (place (ws ! i)) then 1 else 0)
       + (if owes_done (place w') then 1 else 0)"
proof (induction ws arbitrary: i)
  case Nil
  then show ?case by simp
next
  case (Cons x xs)
  show ?case
  proof (cases i)
    case 0
    then show ?thesis by (simp add: owing_Cons)
  next
    case (Suc j)
    with Cons.prems have "j < length xs" by simp
    from Cons.IH [OF this] Suc show ?thesis by (auto simp: owing_Cons split: if_splits)
  qed
qed

lemma owing_pos: "i < length ws \<Longrightarrow> owes_done (place (ws ! i)) \<Longrightarrow> 0 < owing ws"
proof (induction ws arbitrary: i)
  case Nil
  then show ?case by simp
next
  case (Cons x xs)
  then show ?case by (cases i) (auto simp: owing_Cons)
qed

lemma put_sentinels_nowait_fields:
  "\<exists>k. put_sentinels_nowait n a =
     a\<lparr>task_queue := task_queue a @ replicate k None,
       unfinished_tasks := unfinished_tasks a + int k\<rparr>"
proof (induction n arbitrary: a)
  case 0
  have "put_sentinels_nowait 0 a = a\<lparr>task_queue := task_queue a @ replicate 0 None,
       unfinished_tasks := unfinished_tasks a + int 0\<rparr>" by simp
  then show ?case by blast
next
  case (Suc n)
  show ?case
  proof (cases "task_put_nowait None a")
    case None
    then have "put_sentinels_nowait (Suc n) a = a\<lparr>task_queue := task_queue a @ replicate 0 None,
       unfinished_tasks := unfinished_tasks a + int 0\<rparr>" by simp
    then show ?thesis by blast
  next
    case (Some a')
    then have a': "a' = task_put None a"
      by (simp add: task_put_nowait_def split: if_splits)
    from Suc.IH [of a'] obtain k where
      k: "put_sentinels_nowait n a' =
            a'\<lparr>task_queue := task_queue a' @ replicate k None,
               unfinished_tasks := unfinished_tasks a' + int k\<rparr>" by blast
    have "put_sentinels_nowait (Suc n) a =
        a\<lparr>task_queue := task_queue a @ replicate (Suc k) None,
          unfinished_tasks := unfinished_tasks a + int (Suc k)\<rparr>"
      using Some k by (simp add: a' task_put_def replicate_append_same)
    then show ?thesis by blast
  qed
qed

lemma stop_processing_fields:
  "\<exists>k. stop_processing a =
     a\<lparr>stop_event := True, task_queue := task_queue a @ replicate k None,
       unfinished_tasks := unfinished_tasks a + int k\<rparr>"
proof -
  from put_sentinels_nowait_fields [of "nat (max_workers a)" "a\<lparr>stop_event := True\<rparr>"]
  obtain k where "put_sentinels_nowait (nat (max_workers a)) (a\<lparr>stop_event := True\<rparr>) =
     (a\<lparr>stop_event := True\<rparr>)\<lparr>task_queue := task_queue (a\<lparr>stop_event := True\<rparr>) @ replicate k None,
       unfinished_tasks := unfinished_tasks (a\<lparr>stop_event := True\<rparr>) + int k\<rparr>" by blast
  then have "stop_processing a =
     a\<lparr>stop_event := True, task_queue := task_queue a @ replicate k None,
       unfinished_tasks := unfinished_tasks a + int k\<rparr>"
    by (simp add: stop_processing_def)
  then show ?thesis by blast
qed

lemma worker_step_balance:
  assumes "worker_step E n a w = Some (a', w', k)"
    and "owes_done (place w) \<longrightarrow> 0 < unfinished_tasks a"
  shows "unfinished_tasks a' - int (length (task_queue a')) - (if owes_done (place w') then 1 else 0)
         = unfinished_tasks a - int (length (task_queue a)) - (if owes_done (place w) then 1 else 0)"
proof (cases "place w")
  case AtWhile
  with assms show ?thesis by (auto split: if_splits)
next
  case AtGet
  with assms show ?thesis by (auto split: list.splits option.splits)
next
  case AtSentinelDone
  with assms show ?thesis by (auto simp: task_done_def split: if_splits)
next
  case (AtPause x)
  with assms show ?thesis by (auto split: if_splits)
next
  case (AtAcquire x)
  with assms show ?thesis by (auto split: option.splits)
next
  case (AtFetch x)
  with assms show ?thesis by (auto simp: Let_def)
next
  case (AtPut r)
  with assms show ?thesis by (auto split: if_splits)
next
  case AtTaskDone
  with assms show ?thesis by (auto simp: task_done_def split: if_splits)
next
  case Exited
  with assms show ?thesis by simp
next
  case Crashed
  with assms show ?thesis by simp
qed

lemma balanced_step:
  assumes "balanced s"
  shows "balanced (system_step E x s)"
proof (cases x)
  case (Work i)
  show ?thesis
  proof (cases "i < length (workers s)")
    case False
    with Work assms show ?thesis by simp
  next
    case True
    show ?thesis
    proof (cases "worker_step E (timed_ops s) (the_app s) (workers s ! i)")
      case None
      with Work True assms show ?thesis by simp
    next
      case (Some r)
      obtain a' w' k where r: "r = (a', w', k)" by (cases r) auto
      have pos: "owes_done (place (workers s ! i)) \<longrightarrow> 0 < unfinished_tasks (the_app s)"
        using assms owing_pos [OF True] by (auto simp: balanced_def)
      note b = worker_step_balance [OF Some [unfolded r] pos]
      have st: "system_step E x s = s\<lparr>the_app := a', workers := (workers s)[i := w'],
               timed_ops := timed_ops s + k\<rparr>"
        using Work True Some r by simp
      show ?thesis
        unfolding st using assms b owing_update [OF True, of w']
        by (simp add: balanced_def split: if_splits)
    qed
  qed
next
  case (Put item)
  with assms show ?thesis by (simp add: balanced_def task_put_def)
next
  case Pause
  with assms show ?thesis by (simp add: balanced_def pause_processing_def)
next
  case Resume
  with assms show ?thesis by (simp add: balanced_def resume_processing_def)
next
  case Stop
  from stop_processing_fields [of "the_app s"]
  obtain k where "stop_processing (the_app s) =
     (the_app s)\<lparr>stop_event := True,
                 task_queue := task_queue (the_app s) @ replicate k None,
                 unfinished_tasks := unfinished_tasks (the_app s) + int k\<rparr>" by blast
  with Stop assms show ?thesis by (simp add: balanced_def)
next
  case Take
  with assms show ?thesis by (simp add: balanced_def)
qed

lemma balanced_run: "balanced s \<Longrightarrow> balanced (run E xs s)"
  by (induction xs arbitrary: s) (simp_all add: balanced_step)

lemma worker_step_counts:
  assumes "worker_step E n a w = Some (a', w', k)"
    and "dequeued w = pushed w + (if holding (place w) then 1 else 0)"
  shows "dequeued w' = pushed w' + (if holding (place w') then 1 else 0)"
proof (cases "place w")
  case AtWhile
  with assms show ?thesis by (auto split: if_splits)
next
  case AtGet
  with assms show ?thesis by (auto split: list.splits option.splits)
next
  case AtSentinelDone
  with assms show ?thesis by (auto split: option.splits)
next
  case (AtPause x)
  with assms show ?thesis by (auto split: if_splits)
next
  case (AtAcquire x)
  with assms show ?thesis by (auto split: option.splits)
next
  case (AtFetch x)
  with assms show ?thesis by (auto simp: Let_def)
next
  case (AtPut r)
  with assms show ?thesis by (auto split: if_splits)
next
  case AtTaskDone
  with assms show ?thesis by (auto split: option.splits)
next
  case Exited
  with assms show ?thesis by simp
next
  case Crashed
  with assms show ?thesis by simp
qed

lemma worker_step_alive:
  assumes "worker_step E n a w = Some (a', w', k)"
    and "owes_done (place w) \<longrightarrow> 0 < unfinished_tasks a"
  shows "place w' \<noteq> Crashed"
proof (cases "place w")
  case AtWhile
  with assms show ?thesis by (auto split: if_splits)
next
  case AtGet
  with assms show ?thesis by (auto split: list.splits option.splits)
next
  case AtSentinelDone
  with assms show ?thesis by (auto simp: task_done_def split: if_splits)
next
  case (AtPause x)
  with assms show ?thesis by (auto split: if_splits)
next
  case (AtAcquire x)
  with assms show ?thesis by (auto split: option.splits)
next
  case (AtFetch x)
  with assms show ?thesis by (auto simp: Let_def)
next
  case (AtPut r)
  with assms show ?thesis by (auto split: if_splits)
next
  case AtTaskDone
  with assms show ?thesis by (auto simp: task_done_def split: if_splits)
next
  case Exited
  with assms show ?thesis by simp
next
  case Crashed
  with assms show ?thesis by simp
qed

lemma system_step_workers_ok:
  assumes "balanced s" and "\<forall>w \<in> set (workers s). one_result_per_task w"
  shows "\<forall>w \<in> set (workers (system_step E x s)). one_result_per_task w"
proof (cases x)
  case (Work i)
  show ?thesis
  proof (cases "i < length (workers s)")
    case False
    with Work assms show ?thesis by simp
  next
    case True
    show ?thesis
    proof (cases "worker_step E (timed_ops s) (the_app s) (workers s ! i)")
      case None
      with Work True assms show ?thesis by simp
    next
      case (Some r)
      obtain a' w' k where r: "r = (a', w', k)" by (cases r) auto
      have pos: "owes_done (place (workers s ! i)) \<longrightarrow> 0 < unfinished_tasks (the_app s)"
        using assms(1) owing_pos [OF True] by (auto simp: balanced_def)
      have old: "one_result_per_task (workers s ! i)"
        using assms(2) True by simp
      have new: "one_result_per_task w'"
        using worker_step_counts [OF Some [unfolded r]] worker_step_alive [OF Some [unfolded r] pos] old
        by (simp add: one_result_per_task_def)
      have st: "workers (system_step E x s) = (workers s)[i := w']"
        using Work True Some r by simp
      have "set ((workers s)[i := w']) \<subseteq> insert w' (set (workers s))"
        by (rule set_update_subset_insert)
      with assms(2) new show ?thesis unfolding st by auto
    qed
  qed
next
  case (Put item)
  with assms show ?thesis by simp
next
  case Pause
  with assms show ?thesis by simp
next
  case Resume
  with assms show ?thesis by simp
next
  case Stop
  with assms show ?thesis by simp
next
  case Take
  with assms show ?thesis by simp
qed

lemma run_workers_ok:
  "balanced s \<Longrightarrow> \<forall>w \<in> set (workers s). one_result_per_task w \<Longrightarrow>
   \<forall>w \<in> set (workers (run E xs s)). one_result_per_task w"
proof (induction xs arbitrary: s)
  case Nil
  then show ?case by simp
next
  case (Cons x xs)
  from Cons.IH [OF balanced_step [OF Cons.prems(1)] system_step_workers_ok [OF Cons.prems]]
  show ?case by simp
qed

lemma started_system_ok:
  "unfinished_tasks a = int (length (task_queue a)) \<Longrightarrow> balanced (started_system a n)"
  "\<forall>w \<in> set (workers (started_system a n)). one_result_per_task w"
  by (simp_all add: balanced_def started_system_def owing_def fresh_worker_def
      one_result_per_task_def)

lemma in_flight_finishes:
  assumes "place w = AtFetch k" and "length (result_queue a) < RESULT_QUEUE_MAX"
    and "0 < unfinished_tasks a"
  shows "\<exists>r. sku r = k \<and>
           worker_steps E 3 ops a w =
             Some (a\<lparr>result_queue := result_queue a @ [Some r],
                     unfinished_tasks := unfinished_tasks a - 1\<rparr>,
                   w\<lparr>place := AtWhile, pushed := pushed w + 1\<rparr>, ops + 1)"
proof -
  let ?r = "base_result (fetch_order_details (lookup_world E ops) (started_at E ops) k)"
  have "worker_steps E (Suc (Suc (Suc 0))) ops a w =
             Some (a\<lparr>result_queue := result_queue a @ [Some ?r],
                     unfinished_tasks := unfinished_tasks a - 1\<rparr>,
                   w\<lparr>place := AtWhile, pushed := pushed w + 1\<rparr>, ops + 1)"
    using assms by (simp add: Let_def task_done_def)
  then show ?thesis using fetch_sku by (auto simp: numeral_3_eq_3)
qed

lemma past_gate_finishes:
  assumes "place w = AtPause k" and "pause_event a"
    and "length (result_queue a) < RESULT_QUEUE_MAX" and "0 < unfinished_tasks a"
    and "\<forall>rl. rate_limiter a = Some rl \<longrightarrow> 0 < fill_rate rl \<and> 1 \<le> capacity rl"
  shows "\<exists>a' w' ops' r. worker_steps E 5 ops a w = Some (a', w', ops') \<and>
           place w' = AtWhile \<and> pushed w' = pushed w + 1 \<and> dequeued w' = dequeued w \<and>
           result_queue a' = result_queue a @ [Some r] \<and> sku r = k"
proof (cases "rate_limiter a")
  case None
  let ?r = "base_result (fetch_order_details (lookup_world E ops) (started_at E ops) k)"
  have "worker_steps E (Suc (Suc (Suc (Suc (Suc 0))))) ops a w =
          Some (a\<lparr>result_queue := result_queue a @ [Some ?r],
                  unfinished_tasks := unfinished_tasks a - 1\<rparr>,
                w\<lparr>place := AtWhile, pushed := pushed w + 1\<rparr>, ops + 1)"
    using assms(1-4) None by (simp add: Let_def task_done_def)
  then have "worker_steps E 5 ops a w =
          Some (a\<lparr>result_queue := result_queue a @ [Some ?r],
                  unfinished_tasks := unfinished_tasks a - 1\<rparr>,
                w\<lparr>place := AtWhile, pushed := pushed w + 1\<rparr>, ops + 1)"
    by (subst five)
  moreover have "sku ?r = k" by (rule fetch_sku)
  ultimately show ?thesis by simp
next
  case (Some rl)
  with assms(5) have "0 < fill_rate rl" "1 \<le> capacity rl" by auto
  from acquire_returns [OF this, of "started_at E ops"]
  obtain sl t rl' where acq: "acquire (started_at E ops) rl = Some (sl, t, rl')"
    by (metis prod_cases3)
  let ?r = "base_result (fetch_order_details (lookup_world E (ops + 1)) (started_at E (ops + 1)) k)"
  have "worker_steps E (Suc (Suc (Suc (Suc (Suc 0))))) ops a w =
          Some (a\<lparr>rate_limiter := Some rl', result_queue := result_queue a @ [Some ?r],
                  unfinished_tasks := unfinished_tasks a - 1\<rparr>,
                w\<lparr>place := AtWhile, pushed := pushed w + 1\<rparr>, ops + 1 + 1)"
    using assms(1-4) Some acq by (simp add: Let_def task_done_def)
  then have "worker_steps E 5 ops a w =
          Some (a\<lparr>rate_limiter := Some rl', result_queue := result_queue a @ [Some ?r],
                  unfinished_tasks := unfinished_tasks a - 1\<rparr>,
                w\<lparr>place := AtWhile, pushed := pushed w + 1\<rparr>, ops + 1 + 1)"
    by (subst five)
  moreover have "sku ?r = k" by (rule fetch_sku)
  ultimately show ?thesis by simp
qed

lemma quiet_run:
  "run quiet [Put (Some ''A''), Work 0, Work 0, Work 0, Work 0, Work 0, Work 0, Work 0]
     (started_system app_init 1) =
   \<lparr>the_app = app_init\<lparr>result_queue :=
        [Some \<lparr>sku = ''A'', order_date_obj = None, days_since = None,
               order_ref = JStr ''General Exception'', count = JInt 0, status_code = ''N/A''\<rparr>]\<rparr>,
    workers = [\<lparr>place = AtWhile, dequeued = 1, pushed = 1\<rparr>], timed_ops = 1\<rparr>"
  by (simp add: started_system_def app_init_def fresh_worker_def task_put_def
      TASK_QUEUE_MAX_def RESULT_QUEUE_MAX_def task_done_def quiet_def not_json_run Let_def)

lemma worker_step_gate:
  assumes "worker_step E n a w = Some (a', w', k)"
  shows "pause_event a' = pause_event a"
proof (cases "place w")
  case AtWhile
  with assms show ?thesis by (auto split: if_splits)
next
  case AtGet
  with assms show ?thesis by (auto split: list.splits option.splits)
next
  case AtSentinelDone
  with assms show ?thesis by (auto simp: task_done_def split: if_splits)
next
  case (AtPause x)
  with assms show ?thesis by (auto split: if_splits)
next
  case (AtAcquire x)
  with assms show ?thesis by (auto split: option.splits)
next
  case (AtFetch x)
  with assms show ?thesis by (auto simp: Let_def)
next
  case (AtPut r)
  with assms show ?thesis by (auto split: if_splits)
next
  case AtTaskDone
  with assms show ?thesis by (auto simp: task_done_def split: if_splits)
next
  case Exited
  with assms show ?thesis by simp
next
  case Crashed
  with assms show ?thesis by simp
qed

lemma worker_step_held_back:
  assumes "worker_step E n a w = Some (a', w', k)" and "\<not> pause_event a"
  shows "held_back w w'"
proof (cases "place w")
  case AtWhile
  with assms show ?thesis by (auto simp: held_back_def takes_bound_def split: if_splits)
next
  case AtGet
  with assms show ?thesis
    by (auto simp: held_back_def takes_bound_def split: list.splits option.splits)
next
  case AtSentinelDone
  with assms show ?thesis
    by (auto simp: held_back_def takes_bound_def split: option.splits)
next
  case (AtPause x)
  with assms show ?thesis by simp
next
  case (AtAcquire x)
  with assms show ?thesis
    by (auto simp: held_back_def takes_bound_def split: option.splits)
next
  case (AtFetch x)
  with assms show ?thesis by (auto simp: held_back_def takes_bound_def Let_def)
next
  case (AtPut r)
  with assms show ?thesis by (auto simp: held_back_def takes_bound_def split: if_splits)
next
  case AtTaskDone
  with assms show ?thesis
    by (auto simp: held_back_def takes_bound_def split: option.splits)
next
  case Exited
  with assms show ?thesis by simp
next
  case Crashed
  with assms show ?thesis by simp
qed

lemma held_back_refl: "held_back w w"
  by (simp add: held_back_def)

lemma held_back_trans: "held_back u v \<Longrightarrow> held_back v w \<Longrightarrow> held_back u w"
  by (auto simp: held_back_def)

lemma held_back_all_refl: "list_all2 held_back ws ws"
  by (simp add: list_all2_refl held_back_refl)

lemma system_step_paused:
  assumes "\<not> pause_event (the_app s)" and "x \<noteq> Resume"
  shows "\<not> pause_event (the_app (system_step E x s)) \<and>
         list_all2 held_back (workers s) (workers (system_step E x s))"
proof (cases x)
  case (Work i)
  show ?thesis
  proof (cases "i < length (workers s)")
    case False
    with Work assms show ?thesis by (simp add: held_back_all_refl)
  next
    case True
    show ?thesis
    proof (cases "worker_step E (timed_ops s) (the_app s) (workers s ! i)")
      case None
      with Work True assms show ?thesis by (simp add: held_back_all_refl)
    next
      case (Some r)
      obtain a' w' k where r: "r = (a', w', k)" by (cases r) auto
      note st = Some [unfolded r]
      have g: "\<not> pause_event a'"
        using worker_step_gate [OF st] assms(1) by simp
      have hb: "held_back (workers s ! i) w'"
        by (rule worker_step_held_back [OF st assms(1)])
      have "list_all2 held_back ((workers s)[i := workers s ! i]) ((workers s)[i := w'])"
        by (rule list_all2_update_cong [OF held_back_all_refl hb])
      then have "list_all2 held_back (workers s) ((workers s)[i := w'])" by simp
      with g Work True Some r show ?thesis by simp
    qed
  qed
next
  case (Put item)
  with assms show ?thesis by (simp add: held_back_all_refl task_put_def)
next
  case Pause
  with assms show ?thesis by (simp add: held_back_all_refl pause_processing_def)
next
  case Resume
  with assms show ?thesis by simp
next
  case Stop
  from stop_processing_fields [of "the_app s"]
  obtain k where "stop_processing (the_app s) =
     (the_app s)\<lparr>stop_event := True,
                 task_queue := task_queue (the_app s) @ replicate k None,
                 unfinished_tasks := unfinished_tasks (the_app s) + int k\<rparr>" by blast
  with Stop assms show ?thesis by (simp add: held_back_all_refl)
next
  case Take
  with assms show ?thesis by (simp add: held_back_all_refl)
qed

lemma run_paused:
  "\<not> pause_event (the_app s) \<Longrightarrow> Resume \<notin> set xs \<Longrightarrow>
   \<not> pause_event (the_app (run E xs s)) \<and>
   list_all2 held_back (workers s) (workers (run E xs s))"
proof (induction xs arbitrary: s)
  case Nil
  then show ?case by (simp add: held_back_all_refl)
next
  case (Cons x xs)
  from Cons.prems have x: "x \<noteq> Resume" and xs: "Resume \<notin> set xs" by auto
  from system_step_paused [OF Cons.prems(1) x, of E]
  have g: "\<not> pause_event (the_app (system_step E x s))"
    and h: "list_all2 held_back (workers s) (workers (system_step E x s))" by simp_all
  from Cons.IH [OF g xs]
  have g': "\<not> pause_event (the_app (run E xs (system_step E x s)))"
    and h': "list_all2 held_back (workers (system_step E x s))
               (workers (run E xs (system_step E x s)))" by simp_all
  have "list_all2 held_back (workers s) (workers (run E xs (system_step E x s)))"
    by (rule list_all2_trans [OF _ h h']) (rule held_back_trans)
  with g' show ?case by simp
qed

lemma held_back_bound: "held_back w w' \<Longrightarrow> dequeued w' \<le> dequeued w + 1"
  by (auto simp: held_back_def takes_bound_def split: if_splits)

lemmas system_eval = started_system_def app_init_def fresh_worker_def task_put_def
  TASK_QUEUE_MAX_def RESULT_QUEUE_MAX_def task_done_def quiet_def Let_def
  pause_processing_def resume_processing_def

lemma paused_take:
  "run quiet [Pause, Put (Some ''A''), Work 0, Work 0] (started_system app_init 1) =
     \<lparr>the_app = app_init\<lparr>pause_event := False, unfinished_tasks := 1\<rparr>,
      workers = [\<lparr>place = AtPause ''A'', dequeued = 1, pushed = 0\<rparr>], timed_ops = 0\<rparr>"
  by (simp add: system_eval)

lemma paused_put:
  "run quiet [Pause, Put (Some ''A'')] (started_system app_init 1) =
     \<lparr>the_app = app_init\<lparr>pause_event := False, task_queue := [Some ''A''],
                          unfinished_tasks := 1\<rparr>,
      workers = [\<lparr>place = AtWhile, dequeued = 0, pushed = 0\<rparr>], timed_ops = 0\<rparr>"
  by (simp add: system_eval)

lemma paused_more:
  "run quiet [Put (Some ''B''), Work 0, Work 0]
     \<lparr>the_app = app_init\<lparr>pause_event := False, unfinished_tasks := 1\<rparr>,
      workers = [\<lparr>place = AtPause ''A'', dequeued = 1, pushed = 0\<rparr>], timed_ops = 0\<rparr> =
     \<lparr>the_app = app_init\<lparr>pause_event := False, task_queue := [Some ''B''],
                          unfinished_tasks := 2\<rparr>,
      workers = [\<lparr>place = AtPause ''A'', dequeued = 1, pushed = 0\<rparr>], timed_ops = 0\<rparr>"
  by (simp add: system_eval)

section \<open>Worker: the claims\<close>

text \<open>
  Claim C1. In every run of the system from its start, whatever the schedule of worker
  steps, puts, pauses, resumes, stops and takes: no worker is dead (no exception has left
  its loop), and each worker has put exactly one Result per Task it has taken off the task
  queue, but for the Task it holds at the moment. The lookup itself returns, in every
  world and for every key, a Result for that key and no exception. And a worker that
  holds a Task at the open pause gate, with room on the result queue, a task-queue
  counter above zero and a rate limiter (if any) of positive rate, is back at the head
  of its loop after five steps, having put exactly one Result, with the Task's key.
\<close>

theorem one_result_per_dequeued_task:
  "(unfinished_tasks a = int (length (task_queue a)) \<longrightarrow>
      (\<forall>w \<in> set (workers (run E xs (started_system a n))). one_result_per_task w)) \<and>
   raised (fetch_order_details W now key) = None \<and>
   sku (base_result (fetch_order_details W now key)) = key \<and>
   (place w = AtPause k \<and> pause_event b \<and> length (result_queue b) < RESULT_QUEUE_MAX \<and>
    0 < unfinished_tasks b \<and>
    (\<forall>rl. rate_limiter b = Some rl \<longrightarrow> 0 < fill_rate rl \<and> 1 \<le> capacity rl) \<longrightarrow>
      (\<exists>b' w' ops' r. worker_steps E 5 ops b w = Some (b', w', ops') \<and>
         place w' = AtWhile \<and> pushed w' = pushed w + 1 \<and> dequeued w' = dequeued w \<and>
         result_queue b' = result_queue b @ [Some r] \<and> sku r = k))"
proof -
  have 1: "unfinished_tasks a = int (length (task_queue a)) \<longrightarrow>
      (\<forall>w \<in> set (workers (run E xs (started_system a n))). one_result_per_task w)"
    using run_workers_ok [OF started_system_ok(1) started_system_ok(2)] by blast
  have 2: "place w = AtPause k \<and> pause_event b \<and> length (result_queue b) < RESULT_QUEUE_MAX \<and>
    0 < unfinished_tasks b \<and>
    (\<forall>rl. rate_limiter b = Some rl \<longrightarrow> 0 < fill_rate rl \<and> 1 \<le> capacity rl) \<longrightarrow>
      (\<exists>b' w' ops' r. worker_steps E 5 ops b w = Some (b', w', ops') \<and>
         place w' = AtWhile \<and> pushed w' = pushed w + 1 \<and> dequeued w' = dequeued w \<and>
         result_queue b' = result_queue b @ [Some r] \<and> sku r = k)"
    using past_gate_finishes [of w k b E ops] by blast
  from 1 2 fetch_raised fetch_sku show ?thesis by blast
qed

text \<open>
  The theorem of C1 at a run of one worker and one Task, and at a worker holding the
  Task A at the open gate.
\<close>

theorem one_result_per_dequeued_task_witness:
  "unfinished_tasks app_init = int (length (task_queue app_init)) \<and>
   workers (run quiet [Put (Some ''A''), Work 0, Work 0, Work 0, Work 0, Work 0, Work 0, Work 0]
              (started_system app_init 1))
     = [\<lparr>place = AtWhile, dequeued = 1, pushed = 1\<rparr>] \<and>
   one_result_per_task \<lparr>place = AtWhile, dequeued = 1, pushed = 1\<rparr> \<and>
   worker_steps quiet 5 0 (app_init\<lparr>unfinished_tasks := 1\<rparr>)
       \<lparr>place = AtPause ''A'', dequeued = 1, pushed = 0\<rparr>
     = Some (app_init\<lparr>unfinished_tasks := 0, result_queue :=
               [Some \<lparr>sku = ''A'', order_date_obj = None, days_since = None,
                      order_ref = JStr ''General Exception'', count = JInt 0,
                      status_code = ''N/A''\<rparr>]\<rparr>,
             \<lparr>place = AtWhile, dequeued = 1, pushed = 1\<rparr>, 1)"
proof -
  let ?xs = "[Put (Some ''A''), Work 0, Work 0, Work 0, Work 0, Work 0, Work 0, Work 0]"
  let ?b = "app_init\<lparr>unfinished_tasks := 1\<rparr>"
  let ?w = "\<lparr>place = AtPause ''A'', dequeued = 1, pushed = 0\<rparr>"
  have h: "unfinished_tasks app_init = int (length (task_queue app_init))"
    by (simp add: app_init_def)
  have ws: "workers (run quiet ?xs (started_system app_init 1))
              = [\<lparr>place = AtWhile, dequeued = 1, pushed = 1\<rparr>]"
    by (subst quiet_run) simp
  note T = one_result_per_dequeued_task [where a = app_init and E = quiet and xs = ?xs
      and n = 1 and w = ?w and k = "''A''" and b = ?b and ops = 0]
  from T [THEN conjunct1, THEN mp, OF h]
  have "\<forall>w \<in> set (workers (run quiet ?xs (started_system app_init 1))). one_result_per_task w" .
  then have ok: "one_result_per_task \<lparr>place = AtWhile, dequeued = 1, pushed = 1\<rparr>"
    unfolding ws by simp
  have pre: "place ?w = AtPause ''A'' \<and> pause_event ?b \<and>
      length (result_queue ?b) < RESULT_QUEUE_MAX \<and> 0 < unfinished_tasks ?b \<and>
      (\<forall>rl. rate_limiter ?b = Some rl \<longrightarrow> 0 < fill_rate rl \<and> 1 \<le> capacity rl)"
    by (simp add: app_init_def RESULT_QUEUE_MAX_def)
  from T [THEN conjunct2, THEN conjunct2, THEN conjunct2, THEN mp, OF pre]
  obtain b' w' ops' where st: "worker_steps quiet 5 0 ?b ?w = Some (b', w', ops')"
    by blast
  have ev: "worker_steps quiet (Suc (Suc (Suc (Suc (Suc 0))))) 0 ?b ?w
     = Some (app_init\<lparr>unfinished_tasks := 0, result_queue :=
               [Some \<lparr>sku = ''A'', order_date_obj = None, days_since = None,
                      order_ref = JStr ''General Exception'', count = JInt 0,
                      status_code = ''N/A''\<rparr>]\<rparr>,
             \<lparr>place = AtWhile, dequeued = 1, pushed = 1\<rparr>, 1)"
    by (simp add: app_init_def RESULT_QUEUE_MAX_def task_done_def quiet_def not_json_run Let_def)
  have ev5: "worker_steps quiet 5 0 ?b ?w
     = Some (app_init\<lparr>unfinished_tasks := 0, result_queue :=
               [Some \<lparr>sku = ''A'', order_date_obj = None, days_since = None,
                      order_ref = JStr ''General Exception'', count = JInt 0,
                      status_code = ''N/A''\<rparr>]\<rparr>,
             \<lparr>place = AtWhile, dequeued = 1, pushed = 1\<rparr>, 1)"
    by (subst five) (rule ev)
  show ?thesis
    by (intro conjI) (rule h, rule ws, rule ok, rule ev5)
qed

text \<open>
  Claim C5, as the code has it. A worker takes a Task off the task queue first and waits
  at the pause gate afterwards. So while the gate stays closed (no resume), whatever the
  other steps: the gate is still closed; a worker that waits at the gate with a Task
  stays exactly as it is, and starts neither \<open>acquire\<close> nor the lookup; every worker
  takes at most one further Task off the queue; and a worker that is in its lookup when
  the gate is closed finishes it, puts its Result and marks the Task done, given room on
  the result queue.
\<close>

theorem closed_gate_holds_workers_back:
  assumes "\<not> pause_event (the_app s)" and "Resume \<notin> set xs"
  shows "\<not> pause_event (the_app (run E xs s)) \<and>
         length (workers (run E xs s)) = length (workers s) \<and>
         (\<forall>i < length (workers s).
            dequeued (workers (run E xs s) ! i) \<le> dequeued (workers s ! i) + 1 \<and>
            (\<forall>k. place (workers s ! i) = AtPause k \<longrightarrow>
                 workers (run E xs s) ! i = workers s ! i)) \<and>
         (\<forall>w k a ops.
            place w = AtFetch k \<and> \<not> pause_event a \<and>
            length (result_queue a) < RESULT_QUEUE_MAX \<and> 0 < unfinished_tasks a \<longrightarrow>
            (\<exists>r. sku r = k \<and>
               worker_steps E 3 ops a w =
                 Some (a\<lparr>result_queue := result_queue a @ [Some r],
                         unfinished_tasks := unfinished_tasks a - 1\<rparr>,
                       w\<lparr>place := AtWhile, pushed := pushed w + 1\<rparr>, ops + 1)))"
proof -
  from run_paused [OF assms, of E]
  have g: "\<not> pause_event (the_app (run E xs s))"
    and h: "list_all2 held_back (workers s) (workers (run E xs s))" by simp_all
  have len: "length (workers (run E xs s)) = length (workers s)"
    using list_all2_lengthD [OF h] by simp
  have each: "\<forall>i < length (workers s).
            dequeued (workers (run E xs s) ! i) \<le> dequeued (workers s ! i) + 1 \<and>
            (\<forall>k. place (workers s ! i) = AtPause k \<longrightarrow>
                 workers (run E xs s) ! i = workers s ! i)"
  proof (intro allI impI)
    fix i assume "i < length (workers s)"
    from list_all2_nthD [OF h this]
    have hb: "held_back (workers s ! i) (workers (run E xs s) ! i)" .
    from held_back_bound [OF hb] hb
    show "dequeued (workers (run E xs s) ! i) \<le> dequeued (workers s ! i) + 1 \<and>
            (\<forall>k. place (workers s ! i) = AtPause k \<longrightarrow>
                 workers (run E xs s) ! i = workers s ! i)"
      by (simp add: held_back_def)
  qed
  have fl: "\<forall>w k a ops.
            place w = AtFetch k \<and> \<not> pause_event a \<and>
            length (result_queue a) < RESULT_QUEUE_MAX \<and> 0 < unfinished_tasks a \<longrightarrow>
            (\<exists>r. sku r = k \<and>
               worker_steps E 3 ops a w =
                 Some (a\<lparr>result_queue := result_queue a @ [Some r],
                         unfinished_tasks := unfinished_tasks a - 1\<rparr>,
                       w\<lparr>place := AtWhile, pushed := pushed w + 1\<rparr>, ops + 1))"
    using in_flight_finishes by blast
  show ?thesis
    by (intro conjI) (rule g, rule len, rule each, rule fl)
qed

text \<open>
  The theorem of C5 at the system in which one worker waits at the closed gate with the
  Task A while B is put on the queue, and at a worker that is in its lookup of A.
\<close>

theorem closed_gate_holds_workers_back_witness:
  "\<not> pause_event (the_app (run quiet [Pause, Put (Some ''A''), Work 0, Work 0]
                               (started_system app_init 1))) \<and>
   Resume \<notin> set [Put (Some ''B''), Work 0, Work 0] \<and>
   workers (run quiet [Put (Some ''B''), Work 0, Work 0]
              (run quiet [Pause, Put (Some ''A''), Work 0, Work 0]
                 (started_system app_init 1))) ! 0
     = \<lparr>place = AtPause ''A'', dequeued = 1, pushed = 0\<rparr> \<and>
   worker_steps quiet 3 0 (app_init\<lparr>pause_event := False, unfinished_tasks := 1\<rparr>)
       \<lparr>place = AtFetch ''A'', dequeued = 1, pushed = 0\<rparr>
     = Some (app_init\<lparr>pause_event := False, unfinished_tasks := 0, result_queue :=
               [Some \<lparr>sku = ''A'', order_date_obj = None, days_since = None,
                      order_ref = JStr ''General Exception'', count = JInt 0,
                      status_code = ''N/A''\<rparr>]\<rparr>,
             \<lparr>place = AtWhile, dequeued = 1, pushed = 1\<rparr>, 1)"
proof -
  let ?s = "run quiet [Pause, Put (Some ''A''), Work 0, Work 0] (started_system app_init 1)"
  let ?xs = "[Put (Some ''B''), Work 0, Work 0]"
  let ?a = "app_init\<lparr>pause_event := False, unfinished_tasks := 1\<rparr>"
  let ?w = "\<lparr>place = AtFetch ''A'', dequeued = 1, pushed = 0\<rparr>"
  have h1: "\<not> pause_event (the_app ?s)"
    by (subst paused_take) simp
  have h2: "Resume \<notin> set ?xs" by simp
  note T = closed_gate_holds_workers_back [OF h1 h2, of quiet]
  have w0: "workers ?s ! 0 = \<lparr>place = AtPause ''A'', dequeued = 1, pushed = 0\<rparr>"
    and l0: "0 < length (workers ?s)"
    by (subst paused_take, simp)+
  from T have "\<forall>i < length (workers ?s).
            dequeued (workers (run quiet ?xs ?s) ! i) \<le> dequeued (workers ?s ! i) + 1 \<and>
            (\<forall>k. place (workers ?s ! i) = AtPause k \<longrightarrow>
                 workers (run quiet ?xs ?s) ! i = workers ?s ! i)"
    by (rule conjunct2 [THEN conjunct2, THEN conjunct1])
  with l0 have "\<forall>k. place (workers ?s ! 0) = AtPause k \<longrightarrow>
                 workers (run quiet ?xs ?s) ! 0 = workers ?s ! 0" by blast
  moreover have "place (workers ?s ! 0) = AtPause ''A''"
    by (simp only: w0 worker.simps)
  ultimately have "workers (run quiet ?xs ?s) ! 0 = workers ?s ! 0" by blast
  then have c1: "workers (run quiet ?xs ?s) ! 0
                   = \<lparr>place = AtPause ''A'', dequeued = 1, pushed = 0\<rparr>"
    by (simp only: w0)
  have ev: "worker_steps quiet (Suc (Suc (Suc 0))) 0 ?a ?w
     = Some (app_init\<lparr>pause_event := False, unfinished_tasks := 0, result_queue :=
               [Some \<lparr>sku = ''A'', order_date_obj = None, days_since = None,
                      order_ref = JStr ''General Exception'', count = JInt 0,
                      status_code = ''N/A''\<rparr>]\<rparr>,
             \<lparr>place = AtWhile, dequeued = 1, pushed = 1\<rparr>, 1)"
    by (simp add: app_init_def RESULT_QUEUE_MAX_def task_done_def quiet_def not_json_run Let_def)
  have c2: "worker_steps quiet 3 0 ?a ?w
     = Some (app_init\<lparr>pause_event := False, unfinished_tasks := 0, result_queue :=
               [Some \<lparr>sku = ''A'', order_date_obj = None, days_since = None,
                      order_ref = JStr ''General Exception'', count = JInt 0,
                      status_code = ''N/A''\<rparr>]\<rparr>,
             \<lparr>place = AtWhile, dequeued = 1, pushed = 1\<rparr>, 1)"
    by (subst numeral_3_eq_3) (rule ev)
  show ?thesis
    by (intro conjI) (rule h1, rule h2, rule c1, rule c2)
qed

text \<open>
  Claim C5 as stated fails in the run of one worker in which the gate is closed first and
  the Task A is put on the queue afterwards: two steps of the worker later the gate is
  still closed, the queue is empty and the worker holds A.
\<close>

theorem dequeue_while_paused_counterexample:
  "\<not> pause_event (the_app (run quiet [Pause, Put (Some ''A'')] (started_system app_init 1))) \<and>
   task_queue (the_app (run quiet [Pause, Put (Some ''A'')] (started_system app_init 1)))
     = [Some ''A''] \<and>
   \<not> pause_event (the_app (run quiet [Pause, Put (Some ''A''), Work 0, Work 0]
                               (started_system app_init 1))) \<and>
   task_queue (the_app (run quiet [Pause, Put (Some ''A''), Work 0, Work 0]
                          (started_system app_init 1))) = [] \<and>
   workers (run quiet [Pause, Put (Some ''A''), Work 0, Work 0] (started_system app_init 1))
     = [\<lparr>place = AtPause ''A'', dequeued = 1, pushed = 0\<rparr>]"
  by (simp only: paused_take paused_put) (simp add: app_init_def)

section \<open>Aggregator: lemmas\<close>

lemma db_commit_counters:
  "total_processed (snd (db_commit c a)) = total_processed a"
  "total_ok (snd (db_commit c a)) = total_ok a"
  "total_err (snd (db_commit c a)) = total_err a"
  by (simp_all add: db_commit_def)

lemma drain_item_counts:
  "total_processed (drain_item c it a) = total_processed a + 1"
  "total_ok (drain_item c it a) = total_ok a + (if status_code it = ''200'' then 1 else 0)"
  "total_err (drain_item c it a) = total_err a + (if status_code it = ''200'' then 0 else 1)"
  by (simp_all add: drain_item_def db_commit_def Let_def)

lemma drain_loop_counted:
  "total_processed a = total_ok a + total_err a \<Longrightarrow>
   total_processed (snd (drain_loop c n q a))
     = total_ok (snd (drain_loop c n q a)) + total_err (snd (drain_loop c n q a))"
proof (induction q arbitrary: n a)
  case Nil
  then show ?case by simp
next
  case (Cons item q)
  show ?case
  proof (cases item)
    case None
    with Cons show ?thesis by simp
  next
    case (Some it)
    have "total_processed (drain_item c it a)
            = total_ok (drain_item c it a) + total_err (drain_item c it a)"
      using Cons.prems by (simp add: drain_item_counts)
    from Cons.IH [OF this] Some Cons.prems show ?thesis by simp
  qed
qed

lemma finalize_counters:
  "total_processed (finalize_processing c a) = total_processed a"
  "total_ok (finalize_processing c a) = total_ok a"
  "total_err (finalize_processing c a) = total_err a"
  by (simp_all add: finalize_processing_def db_commit_def Let_def)

lemma check_queue_counted:
  assumes "total_processed a = total_ok a + total_err a"
  shows "total_processed (snd (check_queue c a))
     = total_ok (snd (check_queue c a)) + total_err (snd (check_queue c a))"
proof -
  from drain_loop_counted [OF assms, of c 0 "result_queue a"]
  show ?thesis
    by (simp add: check_queue_def Let_def case_prod_beta finalize_counters)
qed

lemma pump_counted:
  "total_processed a = total_ok a + total_err a \<Longrightarrow>
   total_processed (pump c batches a) = total_ok (pump c batches a) + total_err (pump c batches a)"
proof (induction batches arbitrary: a)
  case Nil
  then show ?case by simp
next
  case (Cons arrived later)
  let ?a = "a\<lparr>result_queue := result_queue a @ arrived\<rparr>"
  have "total_processed ?a = total_ok ?a + total_err ?a" using Cons.prems by simp
  from check_queue_counted [OF this, of c]
  have cq: "total_processed (snd (check_queue c ?a))
     = total_ok (snd (check_queue c ?a)) + total_err (snd (check_queue c ?a))" .
  show ?case
  proof (cases "check_queue c ?a")
    case (Pair again a')
    with cq have a': "total_processed a' = total_ok a' + total_err a'" by simp
    show ?thesis
    proof (cases again)
      case True
      with Pair Cons.IH [OF a'] show ?thesis by simp
    next
      case False
      with Pair a' show ?thesis by simp
    qed
  qed
qed

lemma check_queue_idle:
  assumes "is_processing a" and "result_queue a = []" and "total_to_process a = 0"
  shows "check_queue c a = (True, a)"
  using assms by (simp add: check_queue_def Let_def)

lemma pump_idle:
  assumes "is_processing a" and "result_queue a = []" and "total_to_process a = 0"
  shows "pump c (replicate n []) a = a"
proof (induction n)
  case 0
  show ?case by simp
next
  case (Suc n)
  have "a\<lparr>result_queue := result_queue a @ []\<rparr> = a" by simp
  with check_queue_idle [OF assms, of c] Suc show ?case by simp
qed

lemma check_queue_finalizes:
  assumes "is_processing a" and "result_queue a = []" and "0 < total_to_process a"
    and "total_to_process a \<le> total_processed a" and "unfinished_tasks a = 0"
  shows "check_queue c a = (True, finalize_processing c a)"
    and "\<not> is_processing (finalize_processing c a)"
    and "pending_db_count a \<noteq> 0 \<Longrightarrow> c (commit_calls a) \<Longrightarrow>
         db_rows (finalize_processing c a) = db_rows a @ db_new a \<and>
         commits (finalize_processing c a) = commits a + 1 \<and>
         pending_db_count (finalize_processing c a) = 0"
  using assms by (simp_all add: check_queue_def finalize_processing_def db_commit_def Let_def)

lemma stocked_run:
  "producer_from_csv (\<lambda>n. False) stocked_source (start_processing False 150 1 0 app_init)
     = (start_processing False 150 1 0 app_init)\<lparr>task_queue := [None], unfinished_tasks := 1\<rparr>"
  by (simp add: producer_from_csv_def stocked_source_def zero_stock_def start_processing_def
      app_init_def task_put_def Let_def)

lemma stocked_worker:
  "worker_steps quiet (Suc (Suc (Suc 0))) 0
     ((start_processing False 150 1 0 app_init)\<lparr>task_queue := [None], unfinished_tasks := 1\<rparr>)
     fresh_worker
     = Some (start_processing False 150 1 0 app_init,
             \<lparr>place = Exited, dequeued = 0, pushed = 0\<rparr>, 0)"
  by (simp add: start_processing_def app_init_def fresh_worker_def task_done_def)

section \<open>Aggregator: the claims\<close>

text \<open>
  Claim C10. Starting a run sets the three counters to zero. Draining one Result adds
  one to \<open>total_processed\<close> and one to exactly one of \<open>total_ok\<close> (status code
  "200") and \<open>total_err\<close> (any other status code). Hence after any number of runs
  of the timer callback on whatever Results have arrived, and after any part of a
  further drain, \<open>total_processed = total_ok + total_err\<close>.
\<close>

theorem processed_is_ok_plus_err:
  "total_processed (start_processing enabled rpm n now a) = 0 \<and>
   total_ok (start_processing enabled rpm n now a) = 0 \<and>
   total_err (start_processing enabled rpm n now a) = 0 \<and>
   total_processed (drain_item c it b) = total_processed b + 1 \<and>
   total_ok (drain_item c it b) = total_ok b + (if status_code it = ''200'' then 1 else 0) \<and>
   total_err (drain_item c it b) = total_err b + (if status_code it = ''200'' then 0 else 1) \<and>
   total_processed (snd (drain_loop c k q (pump c batches (start_processing enabled rpm n now a))))
     = total_ok (snd (drain_loop c k q (pump c batches (start_processing enabled rpm n now a))))
       + total_err (snd (drain_loop c k q (pump c batches (start_processing enabled rpm n now a))))"
proof -
  let ?a0 = "start_processing enabled rpm n now a"
  have z: "total_processed ?a0 = 0" "total_ok ?a0 = 0" "total_err ?a0 = 0"
    by (simp_all add: start_processing_def)
  then have "total_processed ?a0 = total_ok ?a0 + total_err ?a0" by simp
  from drain_loop_counted [OF pump_counted [OF this]]
  have "total_processed (snd (drain_loop c k q (pump c batches ?a0)))
     = total_ok (snd (drain_loop c k q (pump c batches ?a0)))
       + total_err (snd (drain_loop c k q (pump c batches ?a0)))" .
  with z drain_item_counts [of c it b] show ?thesis by simp
qed

text \<open>
  Claim C6 on a run in which no Task is enqueued. The source \<open>stocked_source\<close> has no
  row of zero stock. The producer puts only the sentinel; the one worker takes it and
  leaves its loop; then the producer is done, the worker has exited, both queues are
  empty, the task counter is zero, and \<open>processed = enqueued = 0\<close>. From there the timer
  callback, however often it runs, leaves \<open>is_processing\<close> set and never calls
  \<open>db.commit\<close>: the run is never finalized, because the test for the end of the run
  requires \<open>total_to_process > 0\<close>.
\<close>

theorem empty_run_never_finalizes:
  "worker_steps quiet 3 0
     (producer_from_csv (\<lambda>n. False) stocked_source (start_processing False 150 1 0 app_init))
     fresh_worker
     = Some (start_processing False 150 1 0 app_init,
             \<lparr>place = Exited, dequeued = 0, pushed = 0\<rparr>, 0) \<and>
   task_queue (start_processing False 150 1 0 app_init) = [] \<and>
   result_queue (start_processing False 150 1 0 app_init) = [] \<and>
   unfinished_tasks (start_processing False 150 1 0 app_init) = 0 \<and>
   total_enqueued (start_processing False 150 1 0 app_init) = 0 \<and>
   total_processed (start_processing False 150 1 0 app_init) = 0 \<and>
   is_processing (pump c (replicate n []) (start_processing False 150 1 0 app_init)) \<and>
   commit_calls (pump c (replicate n []) (start_processing False 150 1 0 app_init)) = 0"
proof -
  let ?a = "start_processing False 150 1 0 app_init"
  have w: "worker_steps quiet 3 0 (producer_from_csv (\<lambda>n. False) stocked_source ?a)
     fresh_worker = Some (?a, \<lparr>place = Exited, dequeued = 0, pushed = 0\<rparr>, 0)"
    by (subst stocked_run, subst numeral_3_eq_3) (rule stocked_worker)
  have f: "is_processing ?a" "result_queue ?a = []" "total_to_process ?a = 0"
    "task_queue ?a = []" "unfinished_tasks ?a = 0" "total_enqueued ?a = 0"
    "total_processed ?a = 0" "commit_calls ?a = 0"
    by (simp_all add: start_processing_def app_init_def)
  have p: "pump c (replicate n []) ?a = ?a"
    by (rule pump_idle [OF f(1,2,3)])
  show ?thesis
    unfolding p by (intro conjI) (rule w f)+
qed

end
